theory Spec2Isabelle
  imports Complex_Main "HOL-Library.AList"
begin

section \<open>JavaScript values\<close>

text \<open>
  A JavaScript number is \<open>NaN\<close>, an infinity or a finite value. Finite values are
  computed exactly (as rationals): rounding, overflow and the sign of zero are not
  modelled, and no theorem below rests on them.
\<close>

datatype number = NaN | PInf | NInf | Fin rat

fun isNaN :: "number \<Rightarrow> bool" where
  "isNaN NaN = True"
| "isNaN _ = False"

fun num_add :: "number \<Rightarrow> number \<Rightarrow> number" where
  "num_add NaN _ = NaN"
| "num_add _ NaN = NaN"
| "num_add PInf NInf = NaN"
| "num_add NInf PInf = NaN"
| "num_add PInf _ = PInf"
| "num_add _ PInf = PInf"
| "num_add NInf _ = NInf"
| "num_add _ NInf = NInf"
| "num_add (Fin a) (Fin b) = Fin (a + b)"

fun num_neg :: "number \<Rightarrow> number" where
  "num_neg NaN = NaN"
| "num_neg PInf = NInf"
| "num_neg NInf = PInf"
| "num_neg (Fin a) = Fin (- a)"

definition num_sub :: "number \<Rightarrow> number \<Rightarrow> number" where
  "num_sub a b = num_add a (num_neg b)"

fun num_div :: "number \<Rightarrow> number \<Rightarrow> number" where
  "num_div NaN _ = NaN"
| "num_div _ NaN = NaN"
| "num_div (Fin a) (Fin b) =
     (if b = 0 then (if a = 0 then NaN else if 0 < a then PInf else NInf)
      else Fin (a / b))"
| "num_div (Fin a) _ = Fin 0"
| "num_div PInf (Fin b) = (if b < 0 then NInf else PInf)"
| "num_div NInf (Fin b) = (if b < 0 then PInf else NInf)"
| "num_div _ _ = NaN"

text \<open>The sign of a comparator's result, as \<open>Array.prototype.sort\<close> reads it
  (\<open>NaN\<close> counts as \<open>0\<close>).\<close>

fun num_sign :: "number \<Rightarrow> int" where
  "num_sign NaN = 0"
| "num_sign PInf = 1"
| "num_sign NInf = - 1"
| "num_sign (Fin a) = (if a < 0 then - 1 else if a = 0 then 0 else 1)"

text \<open>A cell of a \<open>DataRow\<close> (\<open>types.ts\<close>: \<open>string | number\<close>).\<close>

datatype cell = Num number | Str string

type_synonym 'v object = "(string \<times> 'v) list"

type_synonym DataRow = "cell object"

text \<open>\<open>AggregationType\<close> of \<open>types.ts\<close>. \<open>Unknown\<close> is any other value met at
  run time: the \<open>default\<close> branch of the switch in \<open>aggregateData\<close>.\<close>

datatype AggregationType = Sum | Count | Average | Unknown

datatype error = TypeError

text \<open>
  The built-ins of the JavaScript engine that the repository calls and does not define.
  They are parameters of the model:
  \<^item> \<open>NumberToString n\<close> is \<open>String(n)\<close> for a number \<open>n\<close>;
  \<^item> \<open>StringToNumber s\<close> is \<open>Number(s)\<close> for a string \<open>s\<close>;
  \<^item> \<open>parseInt\<close> is the global \<open>parseInt\<close> with one argument;
  \<^item> \<open>localeCompare a b\<close> is \<open>a.localeCompare(b)\<close> (negative, zero or positive);
  \<^item> \<open>protoText k\<close> is \<open>String(Object.prototype[k])\<close> for a member \<open>k\<close> of
    \<open>Object.prototype\<close> (for instance the source text of a native function).
\<close>

record js_env =
  NumberToString :: "number \<Rightarrow> string"
  StringToNumber :: "string \<Rightarrow> number"
  parseInt :: "string \<Rightarrow> number"
  localeCompare :: "string \<Rightarrow> string \<Rightarrow> int"
  protoText :: "string \<Rightarrow> string"

section \<open>Plain objects\<close>

text \<open>
  A plain object (\<open>{}\<close>) is the list of its own properties in creation order. Reading
  \<open>obj[k]\<close> finds an own property, or else a member inherited from
  \<open>Object.prototype\<close>, or else \<open>undefined\<close>.
\<close>

definition Object_prototype :: "string list" where
  "Object_prototype =
     [''constructor'', ''__defineGetter__'', ''__defineSetter__'', ''hasOwnProperty'',
      ''__lookupGetter__'', ''__lookupSetter__'', ''isPrototypeOf'',
      ''propertyIsEnumerable'', ''toString'', ''valueOf'', ''__proto__'',
      ''toLocaleString'']"

datatype 'v property = Own 'v | Inherited | Undefined

definition getProp :: "'v object \<Rightarrow> string \<Rightarrow> 'v property" where
  "getProp obj k =
     (case map_of obj k of
        Some v \<Rightarrow> Own v
      | None \<Rightarrow> if k \<in> set Object_prototype then Inherited else Undefined)"

text \<open>
  The assignment \<open>obj[k] = v\<close>: an own property keeps its place, a new one goes last.
  Assigning to \<open>__proto__\<close> runs the inherited setter, which ignores a value that is
  not an object (the only such assignment in the code stores a primitive).
\<close>

definition setProp :: "'v object \<Rightarrow> string \<Rightarrow> 'v \<Rightarrow> 'v object" where
  "setProp obj k v = (if k = ''__proto__'' then obj else AList.update k v obj)"

text \<open>
  The order of \<open>Object.keys\<close> and of \<open>for ... in\<close>: the keys that are array indices
  (canonical decimal numerals below \<open>2^32 - 1\<close>) in ascending numeric order, then
  the other keys in creation order.
\<close>

definition isDigit :: "char \<Rightarrow> bool" where
  "isDigit c \<longleftrightarrow> (48::nat) \<le> of_char c \<and> (of_char c :: nat) \<le> 57"

definition digitsValue :: "string \<Rightarrow> nat" where
  "digitsValue s = foldl (\<lambda>n c. 10 * n + (of_char c - 48)) 0 s"

definition isArrayIndex :: "string \<Rightarrow> bool" where
  "isArrayIndex s \<longleftrightarrow>
     s \<noteq> [] \<and> list_all isDigit s \<and> (s = ''0'' \<or> take 1 s \<noteq> ''0'')
     \<and> digitsValue s < 4294967295"

definition ownEntries :: "'v object \<Rightarrow> (string \<times> 'v) list" where
  "ownEntries obj =
     sort_key (\<lambda>p. digitsValue (fst p)) (filter (\<lambda>p. isArrayIndex (fst p)) obj)
     @ filter (\<lambda>p. \<not> isArrayIndex (fst p)) obj"

definition ownKeys :: "'v object \<Rightarrow> string list" where
  "ownKeys obj = map fst (ownEntries obj)"

text \<open>The object literal \<open>{[k1]: v1, [k2]: v2}\<close>: a computed key defines an own
  property, and a repeated key keeps its place and takes the later value.\<close>

definition literal2 :: "string \<Rightarrow> 'v \<Rightarrow> string \<Rightarrow> 'v \<Rightarrow> 'v object" where
  "literal2 k1 v1 k2 v2 = AList.update k2 v2 (AList.update k1 v1 [])"

text \<open>\<open>String(row[col])\<close> and \<open>Number(row[col])\<close>.\<close>

definition String_of :: "js_env \<Rightarrow> DataRow \<Rightarrow> string \<Rightarrow> string" where
  "String_of env row col =
     (case getProp row col of
        Own (Str s) \<Rightarrow> s
      | Own (Num n) \<Rightarrow> NumberToString env n
      | Inherited \<Rightarrow> protoText env col
      | Undefined \<Rightarrow> ''undefined'')"

definition Number_of :: "js_env \<Rightarrow> DataRow \<Rightarrow> string \<Rightarrow> number" where
  "Number_of env row col =
     (case getProp row col of
        Own (Str s) \<Rightarrow> StringToNumber env s
      | Own (Num n) \<Rightarrow> n
      | Inherited \<Rightarrow> NaN
      | Undefined \<Rightarrow> NaN)"

text \<open>
  \<open>Array.prototype.sort(cmp)\<close>: stable; \<open>a\<close> goes before \<open>b\<close> when
  \<open>cmp(a, b) < 0\<close>, after it when \<open>cmp(a, b) > 0\<close>, and the two keep their order
  otherwise. The model is insertion from the right, which is that sort for every
  consistent comparator (for an inconsistent one the language leaves the order to the
  engine).
\<close>

fun insertBy :: "('a \<Rightarrow> 'a \<Rightarrow> int) \<Rightarrow> 'a \<Rightarrow> 'a list \<Rightarrow> 'a list" where
  "insertBy cmp x [] = [x]"
| "insertBy cmp x (y # ys) = (if cmp x y \<le> 0 then x # y # ys else y # insertBy cmp x ys)"

definition js_sort :: "('a \<Rightarrow> 'a \<Rightarrow> int) \<Rightarrow> 'a list \<Rightarrow> 'a list" where
  "js_sort cmp xs = foldr (insertBy cmp) xs []"

section \<open>The aggregation engine (\<open>utils/dataProcessor.ts\<close>)\<close>

text \<open>The frequency branch: \<open>counts[key] = (counts[key] || 0) + 1\<close>.\<close>

fun truthy :: "cell \<Rightarrow> bool" where
  "truthy (Num n) = (n \<noteq> NaN \<and> n \<noteq> Fin 0)"
| "truthy (Str s) = (s \<noteq> [])"

fun plusOne :: "js_env \<Rightarrow> cell \<Rightarrow> cell" where
  "plusOne env (Num n) = Num (num_add n (Fin 1))"
| "plusOne env (Str s) = Str (s @ ''1'')"

definition countRow :: "js_env \<Rightarrow> string \<Rightarrow> cell object \<Rightarrow> DataRow \<Rightarrow> cell object" where
  "countRow env groupBy counts row =
     (let key = String_of env row groupBy in
      setProp counts key
        (case getProp counts key of
           Own c \<Rightarrow> plusOne env (if truthy c then c else Num (Fin 0))
         | Inherited \<Rightarrow> Str (protoText env key @ ''1'')
         | Undefined \<Rightarrow> Num (Fin 1)))"

definition countOccurrences :: "js_env \<Rightarrow> string \<Rightarrow> DataRow list \<Rightarrow> cell object" where
  "countOccurrences env groupBy data = foldl (countRow env groupBy) [] data"

text \<open>
  The general branch. \<open>grouped[key].push(value)\<close> on a key that \<open>grouped\<close> inherits
  (so that \<open>!grouped[key]\<close> is false and no array is stored) calls \<open>undefined\<close>:
  a \<open>TypeError\<close>.
\<close>

definition groupRow ::
  "js_env \<Rightarrow> string \<Rightarrow> string \<Rightarrow> number list object \<Rightarrow> DataRow \<Rightarrow> error + number list object"
where
  "groupRow env groupBy valueColumn grouped row =
     (let key = String_of env row groupBy;
          grouped1 = (case getProp grouped key of
                        Undefined \<Rightarrow> setProp grouped key []
                      | _ \<Rightarrow> grouped);
          v = Number_of env row valueColumn
      in if isNaN v then Inr grouped1
         else (case getProp grouped1 key of
                 Own vs \<Rightarrow> Inr (AList.update key (vs @ [v]) grouped1)
               | _ \<Rightarrow> Inl TypeError))"

fun groupRows ::
  "js_env \<Rightarrow> string \<Rightarrow> string \<Rightarrow> number list object \<Rightarrow> DataRow list \<Rightarrow> error + number list object"
where
  "groupRows env groupBy valueColumn grouped [] = Inr grouped"
| "groupRows env groupBy valueColumn grouped (row # rows) =
     (case groupRow env groupBy valueColumn grouped row of
        Inl e \<Rightarrow> Inl e
      | Inr grouped' \<Rightarrow> groupRows env groupBy valueColumn grouped' rows)"

definition sumValues :: "number list \<Rightarrow> number" where
  "sumValues vs = foldl num_add (Fin 0) vs"

fun reduceValues :: "AggregationType \<Rightarrow> number list \<Rightarrow> number" where
  "reduceValues Sum vs = sumValues vs"
| "reduceValues Count vs = Fin (of_nat (length vs))"
| "reduceValues Average vs = num_div (sumValues vs) (Fin (of_nat (length vs)))"
| "reduceValues Unknown vs = Fin 0"

definition compareRows :: "js_env \<Rightarrow> string \<Rightarrow> DataRow \<Rightarrow> DataRow \<Rightarrow> int" where
  "compareRows env groupBy a b =
     (case (getProp a groupBy, getProp b groupBy) of
        (Own (Str x), Own (Str y)) \<Rightarrow> localeCompare env x y
      | _ \<Rightarrow> num_sign (num_sub (Number_of env a groupBy) (Number_of env b groupBy)))"

definition aggregateData ::
  "js_env \<Rightarrow> DataRow list option \<Rightarrow> string \<Rightarrow> string \<Rightarrow> AggregationType \<Rightarrow> error + DataRow list"
where
  "aggregateData env data groupBy valueColumn aggregation =
     (case data of
        None \<Rightarrow> Inr []
      | Some rows \<Rightarrow>
          if rows = [] then Inr []
          else if aggregation = Count \<and> groupBy = valueColumn then
            Inr (map (\<lambda>(key, c). literal2 groupBy (Str key) valueColumn c)
                   (ownEntries (countOccurrences env groupBy rows)))
          else
            (case groupRows env groupBy valueColumn [] rows of
               Inl e \<Rightarrow> Inl e
             | Inr grouped \<Rightarrow>
                 Inr (js_sort (compareRows env groupBy)
                        (map (\<lambda>(key, vs).
                                literal2 groupBy (Str key) valueColumn (Num (reduceValues aggregation vs)))
                           (ownEntries grouped)))))"

text \<open>The variant of \<open>aggregateData\<close> in \<open>unnamed/part_001\<close>: the same code with the
  line \<open>if (values.length === 0) continue;\<close> in the loop over the groups.\<close>

definition aggregateData_part_001 ::
  "js_env \<Rightarrow> DataRow list option \<Rightarrow> string \<Rightarrow> string \<Rightarrow> AggregationType \<Rightarrow> error + DataRow list"
where
  "aggregateData_part_001 env data groupBy valueColumn aggregation =
     (case data of
        None \<Rightarrow> Inr []
      | Some rows \<Rightarrow>
          if rows = [] then Inr []
          else if aggregation = Count \<and> groupBy = valueColumn then
            Inr (map (\<lambda>(key, c). literal2 groupBy (Str key) valueColumn c)
                   (ownEntries (countOccurrences env groupBy rows)))
          else
            (case groupRows env groupBy valueColumn [] rows of
               Inl e \<Rightarrow> Inl e
             | Inr grouped \<Rightarrow>
                 Inr (js_sort (compareRows env groupBy)
                        (map (\<lambda>(key, vs).
                                literal2 groupBy (Str key) valueColumn (Num (reduceValues aggregation vs)))
                           (filter (\<lambda>(key, vs). vs \<noteq> []) (ownEntries grouped))))))"

subsection \<open>What the engine is to compute\<close>

text \<open>
  The group key of every row, in row order; the numeric pool of a key (the measure
  values of its rows that are numbers, in row order); the key an output row carries.
  \<open>groups_of\<close> is the invariant of the grouping loop: the object holds exactly the
  keys met so far that \<open>Object.prototype\<close> does not have, each with its pool.
\<close>

definition groupKeys :: "js_env \<Rightarrow> string \<Rightarrow> DataRow list \<Rightarrow> string list" where
  "groupKeys env groupBy rows = map (\<lambda>row. String_of env row groupBy) rows"

definition pool :: "js_env \<Rightarrow> string \<Rightarrow> string \<Rightarrow> DataRow list \<Rightarrow> string \<Rightarrow> number list" where
  "pool env groupBy valueColumn rows key =
     filter (\<lambda>v. \<not> isNaN v)
       (map (\<lambda>row. Number_of env row valueColumn)
          (filter (\<lambda>row. String_of env row groupBy = key) rows))"

definition groups_of ::
  "js_env \<Rightarrow> string \<Rightarrow> string \<Rightarrow> DataRow list \<Rightarrow> number list object \<Rightarrow> bool" where
  "groups_of env groupBy valueColumn rows grouped \<longleftrightarrow>
     distinct (map fst grouped) \<and>
     map_of grouped =
       (\<lambda>key. if key \<in> set (groupKeys env groupBy rows) \<and> key \<notin> set Object_prototype
              then Some (pool env groupBy valueColumn rows key) else None)"

definition rowKey :: "string \<Rightarrow> DataRow \<Rightarrow> string" where
  "rowKey groupBy row = (case map_of row groupBy of Some (Str k) \<Rightarrow> k | _ \<Rightarrow> [])"

section \<open>File names (\<open>utils/fileUtils.ts\<close>, in \<open>unnamed/part_000\<close>)\<close>

text \<open>\<open>s.lastIndexOf(c)\<close>: the index of the last occurrence, or \<open>-1\<close>.\<close>

fun lastIndexFrom :: "nat \<Rightarrow> char \<Rightarrow> string \<Rightarrow> int \<Rightarrow> int" where
  "lastIndexFrom i c [] found = found"
| "lastIndexFrom i c (x # xs) found = lastIndexFrom (Suc i) c xs (if x = c then int i else found)"

definition lastIndexOf :: "string \<Rightarrow> char \<Rightarrow> int" where
  "lastIndexOf s c = lastIndexFrom 0 c s (- 1)"

text \<open>\<open>s.substring(a, b)\<close>: both indices are clamped to \<open>0 .. length\<close> and swapped
  when \<open>a > b\<close>.\<close>

definition substring :: "string \<Rightarrow> int \<Rightarrow> int \<Rightarrow> string" where
  "substring s a b =
     (let n = int (length s);
          a' = min (max a 0) n;
          b' = min (max b 0) n
      in take (nat (max a' b' - min a' b')) (drop (nat (min a' b')) s))"

definition getFileNameWithoutExtension :: "string \<Rightarrow> string" where
  "getFileNameWithoutExtension fileName =
     (let stem = substring fileName 0 (lastIndexOf fileName CHR ''.'')
      in if stem \<noteq> [] then stem else fileName)"

section \<open>The dashboard state (\<open>App.tsx\<close>)\<close>

datatype ChartType = Bar | Line | Area | Pie | Donut | Scatter

fun ChartType_value :: "ChartType \<Rightarrow> string" where
  "ChartType_value Bar = ''Bar''"
| "ChartType_value Line = ''Line''"
| "ChartType_value Area = ''Area''"
| "ChartType_value Pie = ''Pie''"
| "ChartType_value Donut = ''Donut''"
| "ChartType_value Scatter = ''Scatter''"

text \<open>\<open>ChartConfig\<close> of \<open>types.ts\<close>; the fields \<open>id\<close> and \<open>type\<close> are
  \<open>id_chart\<close> and \<open>type_chart\<close> here.\<close>

record ChartConfig =
  id_chart :: string
  title :: string
  type_chart :: ChartType
  xAxis :: string
  yAxis :: string
  aggregation :: AggregationType

text \<open>The state variables of \<open>App\<close> that the handlers below read or write.\<close>

record app_state =
  isAuthenticated :: bool
  data :: "DataRow list option"
  columns :: "string list"
  charts :: "ChartConfig list"
  dashboardTitle :: string
  fileName :: string
  isRestored :: bool
  isBuilderOpen :: bool
  editingChart :: "ChartConfig option"


definition handleSaveChart :: "ChartConfig \<Rightarrow> app_state \<Rightarrow> app_state" where
  "handleSaveChart config s =
     s\<lparr>charts :=
          (case editingChart s of
             Some _ \<Rightarrow> map (\<lambda>chart. if id_chart chart = id_chart config then config else chart) (charts s)
           | None \<Rightarrow> charts s @ [config]),
       editingChart := None,
       isBuilderOpen := False\<rparr>"

definition removeChart :: "string \<Rightarrow> app_state \<Rightarrow> app_state" where
  "removeChart i s = s\<lparr>charts := filter (\<lambda>chart. id_chart chart \<noteq> i) (charts s)\<rparr>"

definition handleClearDashboard :: "app_state \<Rightarrow> app_state" where
  "handleClearDashboard s = s\<lparr>charts := []\<rparr>"

text \<open>\<open>sortedCharts\<close>: a copy of the chart list, sorted by the chosen option.\<close>

definition byDate :: "js_env \<Rightarrow> ChartConfig \<Rightarrow> ChartConfig \<Rightarrow> int" where
  "byDate env a b = num_sign (num_sub (parseInt env (id_chart a)) (parseInt env (id_chart b)))"

definition byTitle :: "js_env \<Rightarrow> ChartConfig \<Rightarrow> ChartConfig \<Rightarrow> int" where
  "byTitle env a b = localeCompare env (title a) (title b)"

definition byType :: "js_env \<Rightarrow> ChartConfig \<Rightarrow> ChartConfig \<Rightarrow> int" where
  "byType env a b =
     localeCompare env (ChartType_value (type_chart a)) (ChartType_value (type_chart b))"

definition sortedCharts :: "js_env \<Rightarrow> string \<Rightarrow> ChartConfig list \<Rightarrow> ChartConfig list" where
  "sortedCharts env sortOption cs =
     (if sortOption = ''date-asc'' then js_sort (\<lambda>a b. byDate env a b) cs
      else if sortOption = ''date-desc'' then js_sort (\<lambda>a b. byDate env b a) cs
      else if sortOption = ''title-asc'' then js_sort (\<lambda>a b. byTitle env a b) cs
      else if sortOption = ''title-desc'' then js_sort (\<lambda>a b. byTitle env b a) cs
      else if sortOption = ''type-asc'' then js_sort (\<lambda>a b. byType env a b) cs
      else js_sort (\<lambda>a b. byDate env b a) cs)"

text \<open>
  The same in memory. Arrays live in a store, at addresses below \<open>fresh\<close>. The spread
  \<open>[...charts]\<close> allocates a new array with the elements of \<open>charts\<close> (the array at
  \<open>chartsRef\<close>); \<open>sort\<close>
  rearranges the array it is called on and returns that array. \<open>chartComparator\<close>
  is the comparator the \<open>switch\<close> selects.
\<close>

record 'a store =
  cells :: "nat \<Rightarrow> 'a list"
  fresh :: nat

definition spread :: "nat \<Rightarrow> 'a store \<Rightarrow> nat \<times> 'a store" where
  "spread a st =
     (fresh st, st\<lparr>cells := (cells st)(fresh st := cells st a), fresh := Suc (fresh st)\<rparr>)"

definition sortInPlace :: "('a \<Rightarrow> 'a \<Rightarrow> int) \<Rightarrow> nat \<Rightarrow> 'a store \<Rightarrow> nat \<times> 'a store" where
  "sortInPlace cmp a st = (a, st\<lparr>cells := (cells st)(a := js_sort cmp (cells st a))\<rparr>)"

definition chartComparator :: "js_env \<Rightarrow> string \<Rightarrow> ChartConfig \<Rightarrow> ChartConfig \<Rightarrow> int" where
  "chartComparator env sortOption =
     (if sortOption = ''date-asc'' then (\<lambda>a b. byDate env a b)
      else if sortOption = ''date-desc'' then (\<lambda>a b. byDate env b a)
      else if sortOption = ''title-asc'' then (\<lambda>a b. byTitle env a b)
      else if sortOption = ''title-desc'' then (\<lambda>a b. byTitle env b a)
      else if sortOption = ''type-asc'' then (\<lambda>a b. byType env a b)
      else (\<lambda>a b. byDate env b a))"

definition sortedCharts_store ::
  "js_env \<Rightarrow> string \<Rightarrow> nat \<Rightarrow> ChartConfig store \<Rightarrow> nat \<times> ChartConfig store" where
  "sortedCharts_store env sortOption chartsRef st =
     (case spread chartsRef st of
        (sortedRef, st1) \<Rightarrow> sortInPlace (chartComparator env sortOption) sortedRef st1)"

subsection \<open>Restoring the saved dashboard\<close>

text \<open>
  What \<open>JSON.parse\<close> returns, as the effect reads it: \<open>null\<close> (reading a property of
  it throws), or any other value with its properties \<open>charts\<close>, \<open>fileName\<close> and
  \<open>dashboardTitle\<close> at their declared types (\<open>None\<close>: the property is missing).
  \<open>JSON.parse\<close> itself is a parameter: \<open>None\<close> is its \<open>SyntaxError\<close>.
\<close>

record snapshot =
  saved_charts :: "ChartConfig list option"
  saved_fileName :: "string option"
  saved_dashboardTitle :: "string option"

datatype json = JsonNull | JsonValue snapshot

type_synonym storage = "string \<Rightarrow> string option"

definition INSIGHTHUB_AUTOSAVE_KEY :: string where
  "INSIGHTHUB_AUTOSAVE_KEY = ''insighthub-autosave''"

definition restoreFrom :: "snapshot \<Rightarrow> app_state \<Rightarrow> app_state" where
  "restoreFrom saved s =
     (case (saved_charts saved, saved_fileName saved) of
        (Some cs, Some f) \<Rightarrow>
          if f \<noteq> [] then
            (let s1 = s\<lparr>charts := cs, fileName := f\<rparr>;
                 s2 = (case saved_dashboardTitle saved of
                         Some t \<Rightarrow> if t \<noteq> [] then s1\<lparr>dashboardTitle := t\<rparr> else s1
                       | None \<Rightarrow> s1)
             in s2\<lparr>isRestored := True\<rparr>)
          else s
      | _ \<Rightarrow> s)"

text \<open>The effect that runs when \<open>isAuthenticated\<close> changes. Both exceptions of its
  \<open>try\<close> block (the parser's, and the property read on \<open>null\<close>) end in the
  \<open>catch\<close>, which removes the entry.\<close>

definition restoreDashboard ::
  "(string \<Rightarrow> json option) \<Rightarrow> app_state \<times> storage \<Rightarrow> app_state \<times> storage"
where
  "restoreDashboard JSON_parse st =
     (let s = fst st; localStorage = snd st in
      if \<not> isAuthenticated s then (s, localStorage)
      else (case localStorage INSIGHTHUB_AUTOSAVE_KEY of
              None \<Rightarrow> (s, localStorage)
            | Some savedStateJSON \<Rightarrow>
                if savedStateJSON = [] then (s, localStorage)
                else (case JSON_parse savedStateJSON of
                        None \<Rightarrow> (s, localStorage(INSIGHTHUB_AUTOSAVE_KEY := None))
                      | Some JsonNull \<Rightarrow> (s, localStorage(INSIGHTHUB_AUTOSAVE_KEY := None))
                      | Some (JsonValue saved) \<Rightarrow> (restoreFrom saved s, localStorage))))"

section \<open>Concrete values for the examples\<close>

text \<open>
  One environment for the closed examples. Its functions agree with a JavaScript engine
  on the arguments the examples give them: \<open>localeCompare\<close> compares character codes
  (the engine's order on words that differ first in two capital letters or in two
  digits), \<open>parseInt\<close> and \<open>StringToNumber\<close> read unsigned decimal numerals,
  \<open>NumberToString\<close> prints integers, and \<open>protoText\<close> is the text a V8 engine
  gives.
\<close>

fun compareCodes :: "string \<Rightarrow> string \<Rightarrow> int" where
  "compareCodes [] [] = 0"
| "compareCodes [] (y # ys) = - 1"
| "compareCodes (x # xs) [] = 1"
| "compareCodes (x # xs) (y # ys) =
     (if x = y then compareCodes xs ys
      else if (of_char x :: nat) < of_char y then - 1 else 1)"

function decimal :: "nat \<Rightarrow> string" where
  "decimal n =
     (if n < 10 then [''0123456789'' ! n]
      else decimal (n div 10) @ [''0123456789'' ! (n mod 10)])"
  by pat_completeness auto
termination
  by (relation "measure id") auto

declare decimal.simps [simp del]

definition sample_env :: js_env where
  "sample_env =
     \<lparr>NumberToString =
        (\<lambda>n. case n of
               NaN \<Rightarrow> ''NaN''
             | PInf \<Rightarrow> ''Infinity''
             | NInf \<Rightarrow> ''-Infinity''
             | Fin q \<Rightarrow> (if q < 0 then ''-'' else []) @ decimal (nat \<lfloor>\<bar>q\<bar>\<rfloor>)),
      StringToNumber =
        (\<lambda>s. if list_all isDigit s then Fin (of_nat (digitsValue s)) else NaN),
      parseInt =
        (\<lambda>s. if takeWhile isDigit s = [] then NaN
             else Fin (of_nat (digitsValue (takeWhile isDigit s)))),
      localeCompare = compareCodes,
      protoText =
        (\<lambda>k. if k = ''__proto__'' then ''[object Object]''
             else ''function '' @ (if k = ''constructor'' then ''Object'' else k)
                  @ ''() { [native code] }'')\<rparr>"

text \<open>The state \<open>App\<close> starts in (the arguments of its \<open>useState\<close> calls).\<close>

definition initial_state :: app_state where
  "initial_state =
     \<lparr>isAuthenticated = False, data = None, columns = [], charts = [],
      dashboardTitle = ''Untitled Dashboard'', fileName = [], isRestored = False,
      isBuilderOpen = False, editingChart = None\<rparr>"

text \<open>A parser that rejects every text: what \<open>JSON.parse\<close> does on the texts of the
  examples (the empty text and \<open>{charts:\<close>).\<close>

definition no_parse :: "string \<Rightarrow> json option" where
  "no_parse v = None"

definition chartA :: ChartConfig where
  "chartA = \<lparr>id_chart = ''1700000000000'', title = ''SALES'', type_chart = Bar,
             xAxis = ''Region'', yAxis = ''Sales'', aggregation = Sum\<rparr>"

definition chartB :: ChartConfig where
  "chartB = \<lparr>id_chart = ''1700000000001'', title = ''SALES'', type_chart = Pie,
             xAxis = ''Region'', yAxis = ''Sales'', aggregation = Average\<rparr>"

definition chartC :: ChartConfig where
  "chartC = \<lparr>id_chart = ''1700000000002'', title = ''COSTS'', type_chart = Line,
             xAxis = ''Month'', yAxis = ''Cost'', aggregation = Sum\<rparr>"

section \<open>Evaluation\<close>

lemmas aggregate_defs =
  aggregateData_def aggregateData_part_001_def groupRow_def countOccurrences_def countRow_def
  String_of_def Number_of_def getProp_def setProp_def Object_prototype_def ownEntries_def
  isArrayIndex_def isDigit_def digitsValue_def literal2_def js_sort_def sumValues_def
  compareRows_def Let_def

section \<open>Properties of the sort\<close>

lemma js_sort_Nil: "js_sort cmp [] = []"
  by (simp add: js_sort_def)

lemma js_sort_Cons: "js_sort cmp (x # xs) = insertBy cmp x (js_sort cmp xs)"
  by (simp add: js_sort_def)

lemma set_insertBy: "set (insertBy cmp x ys) = insert x (set ys)"
  by (induction ys) auto

lemma length_insertBy: "length (insertBy cmp x ys) = Suc (length ys)"
  by (induction ys) auto

lemma set_js_sort: "set (js_sort cmp xs) = set xs"
  by (induction xs) (simp_all add: js_sort_Nil js_sort_Cons set_insertBy)

lemma length_js_sort: "length (js_sort cmp xs) = length xs"
  by (induction xs) (simp_all add: js_sort_Nil js_sort_Cons length_insertBy)

lemma distinct_insertBy: "distinct (insertBy cmp x ys) \<longleftrightarrow> x \<notin> set ys \<and> distinct ys"
  by (induction ys) (auto simp: set_insertBy)

lemma distinct_js_sort: "distinct (js_sort cmp xs) = distinct xs"
  by (induction xs) (simp_all add: js_sort_Nil js_sort_Cons distinct_insertBy set_js_sort)

lemma sorted_insertBy:
  assumes total: "\<And>a b. a \<in> S \<Longrightarrow> b \<in> S \<Longrightarrow> cmp a b \<le> 0 \<or> cmp b a \<le> 0"
      and trans: "\<And>a b c. a \<in> S \<Longrightarrow> b \<in> S \<Longrightarrow> c \<in> S \<Longrightarrow> cmp a b \<le> 0 \<Longrightarrow> cmp b c \<le> 0
                    \<Longrightarrow> cmp a c \<le> 0"
      and x: "x \<in> S"
  shows "set ys \<subseteq> S \<Longrightarrow> sorted_wrt (\<lambda>a b. cmp a b \<le> 0) ys
     \<Longrightarrow> sorted_wrt (\<lambda>a b. cmp a b \<le> 0) (insertBy cmp x ys)"
proof (induction ys)
  case Nil
  then show ?case by simp
next
  case (Cons y ys)
  have y: "y \<in> S" and ys: "set ys \<subseteq> S"
    using Cons.prems(1) by simp_all
  have below: "\<forall>z\<in>set ys. cmp y z \<le> 0" and tail: "sorted_wrt (\<lambda>a b. cmp a b \<le> 0) ys"
    using Cons.prems(2) by simp_all
  show ?case
  proof (cases "cmp x y \<le> 0")
    case True
    have "\<forall>z\<in>set ys. cmp x z \<le> 0"
    proof
      fix z assume z: "z \<in> set ys"
      then have "cmp y z \<le> 0" using below by simp
      moreover have "z \<in> S" using z ys by blast
      ultimately show "cmp x z \<le> 0" using trans [OF x y _ True] by simp
    qed
    with True below tail show ?thesis by simp
  next
    case False
    then have yx: "cmp y x \<le> 0" using total [OF x y] by simp
    have "sorted_wrt (\<lambda>a b. cmp a b \<le> 0) (insertBy cmp x ys)"
      using Cons.IH [OF ys tail] .
    with False yx below show ?thesis
      by (simp add: set_insertBy)
  qed
qed

lemma sorted_js_sort:
  assumes total: "\<And>a b. a \<in> S \<Longrightarrow> b \<in> S \<Longrightarrow> cmp a b \<le> 0 \<or> cmp b a \<le> 0"
      and trans: "\<And>a b c. a \<in> S \<Longrightarrow> b \<in> S \<Longrightarrow> c \<in> S \<Longrightarrow> cmp a b \<le> 0 \<Longrightarrow> cmp b c \<le> 0
                    \<Longrightarrow> cmp a c \<le> 0"
  shows "set xs \<subseteq> S \<Longrightarrow> sorted_wrt (\<lambda>a b. cmp a b \<le> 0) (js_sort cmp xs)"
proof (induction xs)
  case Nil
  then show ?case by (simp add: js_sort_Nil)
next
  case (Cons x xs)
  have x: "x \<in> S" and xs: "set xs \<subseteq> S"
    using Cons.prems by simp_all
  have "set (js_sort cmp xs) \<subseteq> S"
    using xs by (simp add: set_js_sort)
  then show ?case
    using sorted_insertBy [of S cmp x "js_sort cmp xs", OF total trans x] Cons.IH [OF xs]
    by (simp add: js_sort_Cons)
qed

lemma filter_insertBy_in:
  "P x \<Longrightarrow> \<forall>y\<in>set ys. P y \<longrightarrow> cmp x y \<le> 0 \<Longrightarrow> filter P (insertBy cmp x ys) = x # filter P ys"
  by (induction ys) auto

lemma filter_insertBy_out: "\<not> P x \<Longrightarrow> filter P (insertBy cmp x ys) = filter P ys"
  by (induction ys) auto

lemma js_sort_stable:
  "\<forall>x\<in>set xs. \<forall>y\<in>set xs. P x \<and> P y \<longrightarrow> cmp x y \<le> 0 \<Longrightarrow>
   filter P (js_sort cmp xs) = filter P xs"
proof (induction xs)
  case Nil
  then show ?case by (simp add: js_sort_Nil)
next
  case (Cons x xs)
  then have IH: "filter P (js_sort cmp xs) = filter P xs" by simp
  show ?case
  proof (cases "P x")
    case True
    have "\<forall>y\<in>set (js_sort cmp xs). P y \<longrightarrow> cmp x y \<le> 0"
      using Cons.prems True by (simp add: set_js_sort)
    with True IH show ?thesis
      by (simp add: js_sort_Cons filter_insertBy_in)
  next
    case False
    with IH show ?thesis
      by (simp add: js_sort_Cons filter_insertBy_out)
  qed
qed

lemma insertBy_last: "\<forall>z\<in>set zs. 0 < cmp x z \<Longrightarrow> insertBy cmp x zs = zs @ [x]"
  by (induction zs) auto

lemma js_sort_reverses:
  "sorted_wrt (\<lambda>a b. 0 < cmp a b) ys \<Longrightarrow> js_sort cmp ys = rev ys"
  by (induction ys) (simp_all add: js_sort_Nil js_sort_Cons insertBy_last)

section \<open>What the aggregation engine computes\<close>

lemma aggregateData_None: "aggregateData env None g m k = Inr []"
  by (simp add: aggregateData_def)

lemma set_ownEntries: "set (ownEntries obj) = set obj"
  by (auto simp: ownEntries_def)

lemma length_ownEntries: "length (ownEntries obj) = length obj"
  by (simp add: ownEntries_def sum_length_filter_compl)

lemma distinct_map_insort_key:
  "distinct (map g (insort_key f x ys)) \<longleftrightarrow> g x \<notin> g ` set ys \<and> distinct (map g ys)"
  by (induction ys) (auto simp: set_insort_key)

lemma distinct_map_sort_key: "distinct (map g (sort_key f xs)) = distinct (map g xs)"
  by (induction xs) (simp_all add: distinct_map_insort_key)

lemma distinct_ownKeys: "distinct (map fst obj) \<Longrightarrow> distinct (ownKeys obj)"
  by (auto simp: ownKeys_def ownEntries_def distinct_map_sort_key distinct_map_filter)

lemma set_ownKeys: "set (ownKeys obj) = fst ` set obj"
  by (simp add: ownKeys_def set_ownEntries)

lemma literal2_same: "literal2 k v1 k v2 = [(k, v2)]"
  by (simp add: literal2_def)

lemma literal2_other: "k1 \<noteq> k2 \<Longrightarrow> literal2 k1 v1 k2 v2 = [(k1, v1), (k2, v2)]"
  by (simp add: literal2_def)

text \<open>The counts object after the rows \<open>rows\<close>, none of whose keys is inherited.\<close>

lemma countOccurrences_snoc:
  "countOccurrences env g (rows @ [row]) = countRow env g (countOccurrences env g rows) row"
  by (simp add: countOccurrences_def)

lemma countOccurrences_counts:
  assumes "\<forall>row\<in>set rows. String_of env row g \<notin> set Object_prototype"
  shows "distinct (map fst (countOccurrences env g rows))
    \<and> map_of (countOccurrences env g rows)
        = (\<lambda>k. if k \<in> set (groupKeys env g rows)
                then Some (Num (Fin (of_nat (count_list (groupKeys env g rows) k)))) else None)"
  using assms
proof (induction rows rule: rev_induct)
  case Nil
  then show ?case by (simp add: countOccurrences_def groupKeys_def)
next
  case (snoc row rows)
  let ?counts = "countOccurrences env g rows"
  let ?key = "String_of env row g"
  let ?ks = "groupKeys env g rows"
  have IH: "distinct (map fst ?counts)"
    "map_of ?counts = (\<lambda>k. if k \<in> set ?ks then Some (Num (Fin (of_nat (count_list ?ks k)))) else None)"
    using snoc by simp_all
  have key: "?key \<notin> set Object_prototype"
    using snoc.prems by simp
  then have np: "?key \<noteq> ''__proto__''"
    by (auto simp: Object_prototype_def)
  have lookup: "getProp ?counts ?key =
      (if ?key \<in> set ?ks then Own (Num (Fin (of_nat (count_list ?ks ?key)))) else Undefined)"
    using key by (simp add: getProp_def IH(2))
  have pos: "?key \<in> set ?ks \<Longrightarrow> count_list ?ks ?key \<noteq> 0"
    by (simp add: count_list_0_iff)
  have step: "countRow env g ?counts row
      = AList.update ?key (Num (Fin (of_nat (Suc (count_list ?ks ?key))))) ?counts"
  proof (cases "?key \<in> set ?ks")
    case True
    with pos have "count_list ?ks ?key \<noteq> 0" by simp
    with True show ?thesis
      by (simp add: countRow_def Let_def lookup setProp_def np add.commute)
  next
    case False
    then show ?thesis
      by (simp add: countRow_def Let_def lookup setProp_def np)
  qed
  have ks: "groupKeys env g (rows @ [row]) = ?ks @ [?key]"
    by (simp add: groupKeys_def)
  show ?case
    unfolding countOccurrences_snoc step ks
    using IH(1) by (simp add: AList.distinct_update AList.update_conv' IH(2) fun_eq_iff)
qed


lemma set_countOccurrences_keys:
  assumes "\<forall>row\<in>set rows. String_of env row g \<notin> set Object_prototype"
  shows "fst ` set (countOccurrences env g rows) = set (groupKeys env g rows)"
proof -
  have "dom (map_of (countOccurrences env g rows)) = set (groupKeys env g rows)"
    using countOccurrences_counts [OF assms] by (auto simp: dom_def split: if_splits)
  then show ?thesis by (simp add: dom_map_of_conv_image_fst)
qed

lemma countOccurrences_entry:
  assumes "\<forall>row\<in>set rows. String_of env row g \<notin> set Object_prototype"
      and "(k, c) \<in> set (countOccurrences env g rows)"
  shows "c = Num (Fin (of_nat (count_list (groupKeys env g rows) k)))"
proof -
  have "distinct (map fst (countOccurrences env g rows))"
    using countOccurrences_counts [OF assms(1)] by (rule conjunct1)
  then have "map_of (countOccurrences env g rows) k = Some c"
    using assms(2) by (simp only: map_of_eq_Some_iff)
  then show ?thesis
    using countOccurrences_counts [OF assms(1)] by (simp split: if_splits)
qed

lemma aggregateData_frequency_counts:
  assumes "rows \<noteq> []"
      and "\<forall>row\<in>set rows. String_of env row col \<notin> set Object_prototype"
  shows "aggregateData env (Some rows) col col Count
           = Inr (map (\<lambda>k. [(col, Num (Fin (of_nat (count_list (groupKeys env col rows) k))))])
                    (ownKeys (countOccurrences env col rows)))"
    and "distinct (ownKeys (countOccurrences env col rows))"
    and "set (ownKeys (countOccurrences env col rows)) = set (groupKeys env col rows)"
    and "sum_list (map (count_list (groupKeys env col rows)) (ownKeys (countOccurrences env col rows)))
           = length rows"
proof -
  let ?counts = "countOccurrences env col rows"
  let ?ks = "groupKeys env col rows"
  have "map (\<lambda>(key, c). literal2 col (Str key) col c) (ownEntries ?counts)
      = map (\<lambda>p. [(col, Num (Fin (of_nat (count_list ?ks (fst p)))))]) (ownEntries ?counts)"
  proof (rule map_cong [OF refl])
    fix p assume "p \<in> set (ownEntries ?counts)"
    then have "(fst p, snd p) \<in> set ?counts"
      by (simp add: set_ownEntries)
    then have "snd p = Num (Fin (of_nat (count_list ?ks (fst p))))"
      by (rule countOccurrences_entry [OF assms(2)])
    then show "(case p of (key, c) \<Rightarrow> literal2 col (Str key) col c)
        = [(col, Num (Fin (of_nat (count_list ?ks (fst p)))))]"
      by (simp add: literal2_same split_beta)
  qed
  then show "aggregateData env (Some rows) col col Count
           = Inr (map (\<lambda>k. [(col, Num (Fin (of_nat (count_list ?ks k))))]) (ownKeys ?counts))"
    using assms(1) by (simp add: aggregateData_def ownKeys_def comp_def)
  show d: "distinct (ownKeys ?counts)"
    using countOccurrences_counts [OF assms(2)] by (simp add: distinct_ownKeys)
  show s: "set (ownKeys ?counts) = set ?ks"
    by (simp add: set_ownKeys set_countOccurrences_keys [OF assms(2)])
  have "sum_list (map (count_list ?ks) (ownKeys ?counts)) = sum (count_list ?ks) (set ?ks)"
    using d s by (simp add: sum_list_distinct_conv_sum_set)
  also have "\<dots> = length ?ks"
    by (rule sum_count_set) simp_all
  finally show "sum_list (map (count_list ?ks) (ownKeys ?counts)) = length rows"
    by (simp add: groupKeys_def)
qed


lemma pool_snoc:
  "pool env g m (rows @ [row]) key =
     pool env g m rows key
     @ (if String_of env row g = key \<and> \<not> isNaN (Number_of env row m)
        then [Number_of env row m] else [])"
  by (simp add: pool_def)

lemma pool_absent: "key \<notin> set (groupKeys env g rows) \<Longrightarrow> pool env g m rows key = []"
  by (auto simp: pool_def groupKeys_def filter_empty_conv)

lemma groupKeys_snoc: "groupKeys env g (rows @ [row]) = groupKeys env g rows @ [String_of env row g]"
  by (simp add: groupKeys_def)

lemma groups_of_Nil: "groups_of env g m [] []"
  by (simp add: groups_of_def groupKeys_def)

lemma groupRow_inherited:
  assumes inv: "groups_of env g m P grouped"
      and key: "String_of env row g \<in> set Object_prototype"
  shows "groupRow env g m grouped row
           = (if isNaN (Number_of env row m) then Inr grouped else Inl TypeError)"
proof -
  have "map_of grouped (String_of env row g) = None"
    using inv key by (simp add: groups_of_def)
  then have "getProp grouped (String_of env row g) = Inherited"
    using key by (simp add: getProp_def)
  then show ?thesis
    by (simp add: groupRow_def Let_def)
qed

lemma groupRow_own:
  assumes inv: "groups_of env g m P grouped"
      and key: "String_of env row g \<notin> set Object_prototype"
  shows "groupRow env g m grouped row
           = Inr (AList.update (String_of env row g) (pool env g m (P @ [row]) (String_of env row g))
                    grouped)"
proof -
  let ?key = "String_of env row g"
  let ?v = "Number_of env row m"
  have np: "?key \<noteq> ''__proto__''"
    using key by (auto simp: Object_prototype_def)
  have look: "map_of grouped ?key
      = (if ?key \<in> set (groupKeys env g P) then Some (pool env g m P ?key) else None)"
    using inv key by (simp add: groups_of_def)
  show ?thesis
  proof (cases "?key \<in> set (groupKeys env g P)")
    case True
    then have own: "getProp grouped ?key = Own (pool env g m P ?key)"
      by (simp add: getProp_def look)
    have same: "AList.update ?key (pool env g m P ?key) grouped = grouped"
      using True look by (simp add: AList.update_triv)
    show ?thesis
      using own same by (simp add: groupRow_def Let_def pool_snoc)
  next
    case False
    then have und: "getProp grouped ?key = Undefined"
      using key by (simp add: getProp_def look)
    have new: "getProp (AList.update ?key [] grouped) ?key = Own []"
      by (simp add: getProp_def AList.update_conv')
    have empty: "pool env g m P ?key = []"
      using False by (rule pool_absent)
    show ?thesis
      using und new empty np by (simp add: groupRow_def Let_def pool_snoc setProp_def)
  qed
qed

lemma groups_of_step:
  assumes inv: "groups_of env g m P grouped"
      and step: "groupRow env g m grouped row = Inr grouped'"
  shows "groups_of env g m (P @ [row]) grouped'"
proof (cases "String_of env row g \<in> set Object_prototype")
  case True
  with inv step have nan: "isNaN (Number_of env row m)" and same: "grouped' = grouped"
    by (auto simp: groupRow_inherited split: if_splits)
  have "\<And>key. key \<notin> set Object_prototype \<Longrightarrow> pool env g m (P @ [row]) key = pool env g m P key"
    using True by (auto simp: pool_snoc)
  then show ?thesis
    using inv True unfolding same groups_of_def groupKeys_snoc
    by (auto simp: fun_eq_iff)
next
  case False
  let ?key = "String_of env row g"
  have g': "grouped' = AList.update ?key (pool env g m (P @ [row]) ?key) grouped"
    using groupRow_own [OF inv False] step by simp
  have other: "\<And>key. key \<noteq> ?key \<Longrightarrow> pool env g m (P @ [row]) key = pool env g m P key"
    by (simp add: pool_snoc)
  show ?thesis
    using inv False other unfolding g' groups_of_def groupKeys_snoc
    by (auto simp: fun_eq_iff AList.distinct_update AList.update_conv')
qed


lemma groupRows_result:
  "groups_of env g m P grouped \<Longrightarrow> groupRows env g m grouped rows = Inr grouped'
   \<Longrightarrow> groups_of env g m (P @ rows) grouped'"
proof (induction rows arbitrary: P grouped)
  case Nil
  then show ?case by simp
next
  case (Cons row rows)
  from Cons.prems(2) obtain grouped1 where
    step: "groupRow env g m grouped row = Inr grouped1" and
    rest: "groupRows env g m grouped1 rows = Inr grouped'"
    by (auto split: sum.splits)
  have "groups_of env g m (P @ [row]) grouped1"
    using Cons.prems(1) step by (rule groups_of_step)
  then have "groups_of env g m ((P @ [row]) @ rows) grouped'"
    using rest by (rule Cons.IH)
  then show ?case by simp
qed

lemma groupRows_throws_iff:
  "groups_of env g m P grouped \<Longrightarrow>
   groupRows env g m grouped rows = Inl TypeError \<longleftrightarrow>
     (\<exists>row\<in>set rows. String_of env row g \<in> set Object_prototype
                      \<and> \<not> isNaN (Number_of env row m))"
proof (induction rows arbitrary: P grouped)
  case Nil
  then show ?case by simp
next
  case (Cons row rows)
  show ?case
  proof (cases "groupRow env g m grouped row")
    case (Inl e)
    then have "String_of env row g \<in> set Object_prototype \<and> \<not> isNaN (Number_of env row m)"
      using Cons.prems groupRow_own [OF Cons.prems, of row] groupRow_inherited [OF Cons.prems, of row]
      by (cases "String_of env row g \<in> set Object_prototype") (auto split: if_splits)
    moreover have "e = TypeError" by (cases e) simp
    ultimately show ?thesis using Inl by simp
  next
    case (Inr grouped1)
    then have ok: "\<not> (String_of env row g \<in> set Object_prototype \<and> \<not> isNaN (Number_of env row m))"
      using groupRow_inherited [OF Cons.prems, of row] by (auto split: if_splits)
    have "groups_of env g m (P @ [row]) grouped1"
      using Cons.prems Inr by (rule groups_of_step)
    then have "groupRows env g m grouped1 rows = Inl TypeError \<longleftrightarrow>
        (\<exists>row\<in>set rows. String_of env row g \<in> set Object_prototype
                      \<and> \<not> isNaN (Number_of env row m))"
      by (rule Cons.IH)
    with Inr ok show ?thesis by auto
  qed
qed

lemma groups_of_set:
  assumes "groups_of env g m rows grouped"
  shows "set grouped = (\<lambda>key. (key, pool env g m rows key))
                         ` (set (groupKeys env g rows) - set Object_prototype)"
proof -
  have d: "distinct (map fst grouped)" and
    look: "\<And>key. map_of grouped key =
       (if key \<in> set (groupKeys env g rows) \<and> key \<notin> set Object_prototype
        then Some (pool env g m rows key) else None)"
    using assms by (simp_all add: groups_of_def)
  show ?thesis
  proof (rule set_eqI)
    fix p :: "string \<times> number list"
    have "p \<in> set grouped \<longleftrightarrow> map_of grouped (fst p) = Some (snd p)"
      using d by (cases p) (simp only: map_of_eq_Some_iff fst_conv snd_conv)
    also have "\<dots> \<longleftrightarrow> p \<in> (\<lambda>key. (key, pool env g m rows key))
                         ` (set (groupKeys env g rows) - set Object_prototype)"
      by (cases p) (auto simp: look)
    finally show "p \<in> set grouped \<longleftrightarrow> p \<in> (\<lambda>key. (key, pool env g m rows key))
                         ` (set (groupKeys env g rows) - set Object_prototype)" .
  qed
qed


lemma aggregateData_empty:
  "aggregateData env (Some []) g m agg = Inr []"
  "aggregateData_part_001 env (Some []) g m agg = Inr []"
  "aggregateData_part_001 env None g m agg = Inr []"
  by (simp_all add: aggregateData_def aggregateData_part_001_def)

lemma aggregateData_throws_iff:
  "aggregateData env input g m agg = Inl TypeError \<longleftrightarrow>
     (\<exists>rows. input = Some rows \<and> \<not> (agg = Count \<and> g = m) \<and>
        (\<exists>row\<in>set rows. String_of env row g \<in> set Object_prototype
                         \<and> \<not> isNaN (Number_of env row m)))"
proof (cases input)
  case None
  then show ?thesis by (simp add: aggregateData_def)
next
  case (Some rows)
  show ?thesis
  proof (cases "agg = Count \<and> g = m")
    case True
    with Some show ?thesis by (simp add: aggregateData_def)
  next
    case False
    have "groupRows env g m [] rows = Inl TypeError \<longleftrightarrow>
        (\<exists>row\<in>set rows. String_of env row g \<in> set Object_prototype
                         \<and> \<not> isNaN (Number_of env row m))"
      using groups_of_Nil by (rule groupRows_throws_iff)
    with Some False show ?thesis
      by (cases rows) (auto simp: aggregateData_def split: sum.splits)
  qed
qed

lemma aggregateData_part_001_throws_iff:
  "aggregateData_part_001 env input g m agg = Inl TypeError \<longleftrightarrow>
     aggregateData env input g m agg = Inl TypeError"
  by (auto simp: aggregateData_def aggregateData_part_001_def split: option.splits sum.splits)

lemma aggregateData_groups:
  assumes general: "\<not> (agg = Count \<and> g = m)"
      and out: "aggregateData env (Some rows) g m agg = Inr out"
  shows "set out = (\<lambda>key. literal2 g (Str key) m (Num (reduceValues agg (pool env g m rows key))))
                     ` (set (groupKeys env g rows) - set Object_prototype)"
proof (cases "rows = []")
  case True
  with out show ?thesis by (simp add: aggregateData_def groupKeys_def)
next
  case False
  from out general False obtain grouped where
    grouped: "groupRows env g m [] rows = Inr grouped" and
    o: "out = js_sort (compareRows env g)
              (map (\<lambda>(key, vs). literal2 g (Str key) m (Num (reduceValues agg vs)))
                 (ownEntries grouped))"
    by (auto simp: aggregateData_def split: sum.splits if_splits)
  have "groups_of env g m ([] @ rows) grouped"
    using groups_of_Nil grouped by (rule groupRows_result)
  then have "set grouped = (\<lambda>key. (key, pool env g m rows key))
                         ` (set (groupKeys env g rows) - set Object_prototype)"
    using groups_of_set by simp
  then show ?thesis
    unfolding o by (simp add: set_js_sort set_ownEntries image_image)
qed

lemma aggregateData_part_001_groups:
  assumes general: "\<not> (agg = Count \<and> g = m)"
      and out: "aggregateData_part_001 env (Some rows) g m agg = Inr out"
  shows "set out = (\<lambda>key. literal2 g (Str key) m (Num (reduceValues agg (pool env g m rows key))))
                     ` {key \<in> set (groupKeys env g rows) - set Object_prototype.
                          pool env g m rows key \<noteq> []}"
proof (cases "rows = []")
  case True
  with out show ?thesis by (simp add: aggregateData_part_001_def groupKeys_def)
next
  case False
  from out general False obtain grouped where
    grouped: "groupRows env g m [] rows = Inr grouped" and
    o: "out = js_sort (compareRows env g)
              (map (\<lambda>(key, vs). literal2 g (Str key) m (Num (reduceValues agg vs)))
                 (filter (\<lambda>(key, vs). vs \<noteq> []) (ownEntries grouped)))"
    by (auto simp: aggregateData_part_001_def split: sum.splits if_splits)
  have "groups_of env g m ([] @ rows) grouped"
    using groups_of_Nil grouped by (rule groupRows_result)
  then have "set grouped = (\<lambda>key. (key, pool env g m rows key))
                         ` (set (groupKeys env g rows) - set Object_prototype)"
    using groups_of_set by simp
  then show ?thesis
    unfolding o by (auto simp: set_js_sort set_ownEntries image_iff)
qed

text \<open>In the copy of \<open>unnamed/part_001\<close>, no output row carries the key of a group
  whose pool is empty.\<close>

lemma aggregateData_part_001_omits_empty_group:
  assumes "g \<noteq> m"
      and "aggregateData_part_001 env (Some rows) g m agg = Inr out"
      and "pool env g m rows key = []"
  shows "\<forall>row\<in>set out. map_of row g \<noteq> Some (Str key)"
proof
  fix row assume "row \<in> set out"
  then obtain key' where "pool env g m rows key' \<noteq> []" and
    "row = literal2 g (Str key') m (Num (reduceValues agg (pool env g m rows key')))"
    using aggregateData_part_001_groups [OF _ assms(2)] assms(1) by auto
  then show "map_of row g \<noteq> Some (Str key)"
    using assms(1,3) by (auto simp: literal2_other)
qed


lemma compareRows_keys:
  assumes "g \<noteq> m"
  shows "compareRows env g (literal2 g (Str k1) m v1) (literal2 g (Str k2) m v2)
           = localeCompare env k1 k2"
    and "rowKey g (literal2 g (Str k1) m v1) = k1"
  using assms by (simp_all add: compareRows_def getProp_def literal2_other rowKey_def)

lemma js_sort_rows_by_key:
  assumes gm: "g \<noteq> m"
      and total: "\<forall>a\<in>K. \<forall>b\<in>K. localeCompare env a b \<le> 0 \<or> localeCompare env b a \<le> 0"
      and trans: "\<forall>a\<in>K. \<forall>b\<in>K. \<forall>c\<in>K. localeCompare env a b \<le> 0 \<and> localeCompare env b c \<le> 0
                    \<longrightarrow> localeCompare env a c \<le> 0"
      and rows: "\<forall>row\<in>set L. \<exists>key\<in>K. \<exists>v. row = literal2 g (Str key) m v"
  shows "sorted_wrt (\<lambda>a b. localeCompare env a b \<le> 0)
           (map (rowKey g) (js_sort (compareRows env g) L))"
proof -
  have shape: "\<And>row. row \<in> set L \<Longrightarrow> \<exists>key\<in>K. \<exists>v. row = literal2 g (Str key) m v"
    using rows by blast
  have cmp: "\<And>a b. a \<in> set L \<Longrightarrow> b \<in> set L \<Longrightarrow>
      compareRows env g a b = localeCompare env (rowKey g a) (rowKey g b)"
  proof -
    fix a b assume "a \<in> set L" "b \<in> set L"
    then obtain k1 v1 k2 v2 where "a = literal2 g (Str k1) m v1" "b = literal2 g (Str k2) m v2"
      using shape by blast
    then show "compareRows env g a b = localeCompare env (rowKey g a) (rowKey g b)"
      by (simp add: compareRows_keys [OF gm])
  qed
  have key: "\<And>a. a \<in> set L \<Longrightarrow> rowKey g a \<in> K"
  proof -
    fix a assume "a \<in> set L"
    then obtain k v where "k \<in> K" "a = literal2 g (Str k) m v"
      using shape by blast
    then show "rowKey g a \<in> K"
      by (simp add: compareRows_keys [OF gm])
  qed
  have "sorted_wrt (\<lambda>a b. compareRows env g a b \<le> 0) (js_sort (compareRows env g) L)"
  proof (rule sorted_js_sort [where S = "set L"])
    fix a b assume ab: "a \<in> set L" "b \<in> set L"
    then have "localeCompare env (rowKey g a) (rowKey g b) \<le> 0
        \<or> localeCompare env (rowKey g b) (rowKey g a) \<le> 0"
      using total key by blast
    then show "compareRows env g a b \<le> 0 \<or> compareRows env g b a \<le> 0"
      using ab by (simp add: cmp)
  next
    fix a b c assume abc: "a \<in> set L" "b \<in> set L" "c \<in> set L"
      and le: "compareRows env g a b \<le> 0" "compareRows env g b c \<le> 0"
    have "localeCompare env (rowKey g a) (rowKey g b) \<le> 0"
      "localeCompare env (rowKey g b) (rowKey g c) \<le> 0"
      using le abc by (simp_all add: cmp)
    moreover have "rowKey g a \<in> K" "rowKey g b \<in> K" "rowKey g c \<in> K"
      using abc key by simp_all
    ultimately have "localeCompare env (rowKey g a) (rowKey g c) \<le> 0"
      using trans by blast
    then show "compareRows env g a c \<le> 0"
      using abc by (simp add: cmp)
  next
    show "set L \<subseteq> set L" by simp
  qed
  then have "sorted_wrt (\<lambda>a b. localeCompare env (rowKey g a) (rowKey g b) \<le> 0)
      (js_sort (compareRows env g) L)"
  proof (rule sorted_wrt_mono_rel [rotated])
    fix a b assume "a \<in> set (js_sort (compareRows env g) L)" "b \<in> set (js_sort (compareRows env g) L)"
      and "compareRows env g a b \<le> 0"
    then show "localeCompare env (rowKey g a) (rowKey g b) \<le> 0"
      by (simp add: set_js_sort cmp)
  qed
  then show ?thesis
    by (simp add: sorted_wrt_map)
qed

text \<open>With different group and measure columns, and a \<open>localeCompare\<close> that orders the
  group keys, the output is in ascending order of the keys.\<close>

lemma aggregateData_sorted_by_key:
  assumes gm: "g \<noteq> m"
      and total: "\<forall>a\<in>set (groupKeys env g rows). \<forall>b\<in>set (groupKeys env g rows).
                    localeCompare env a b \<le> 0 \<or> localeCompare env b a \<le> 0"
      and trans: "\<forall>a\<in>set (groupKeys env g rows). \<forall>b\<in>set (groupKeys env g rows).
                    \<forall>c\<in>set (groupKeys env g rows).
                    localeCompare env a b \<le> 0 \<and> localeCompare env b c \<le> 0
                    \<longrightarrow> localeCompare env a c \<le> 0"
      and out: "aggregateData env (Some rows) g m agg = Inr out"
  shows "sorted_wrt (\<lambda>a b. localeCompare env a b \<le> 0) (map (rowKey g) out)"
proof (cases "rows = []")
  case True
  with out show ?thesis by (simp add: aggregateData_def)
next
  case False
  from out gm False obtain grouped where
    grouped: "groupRows env g m [] rows = Inr grouped" and
    o: "out = js_sort (compareRows env g)
              (map (\<lambda>(key, vs). literal2 g (Str key) m (Num (reduceValues agg vs)))
                 (ownEntries grouped))"
    by (auto simp: aggregateData_def split: sum.splits if_splits)
  have "groups_of env g m ([] @ rows) grouped"
    using groups_of_Nil grouped by (rule groupRows_result)
  then have "set grouped = (\<lambda>key. (key, pool env g m rows key))
                         ` (set (groupKeys env g rows) - set Object_prototype)"
    using groups_of_set by simp
  then have "\<forall>row\<in>set (map (\<lambda>(key, vs). literal2 g (Str key) m (Num (reduceValues agg vs)))
                 (ownEntries grouped)).
      \<exists>key\<in>set (groupKeys env g rows). \<exists>v. row = literal2 g (Str key) m v"
    by (auto simp: set_ownEntries)
  then show ?thesis
    unfolding o using gm total trans by (rule js_sort_rows_by_key [rotated 3])
qed

text \<open>
  Two examples in the environment of the examples. The first is the spec's: the average
  of two groups, \<open>East\<close> before \<open>West\<close>. In the second the group column holds the
  numbers 9 and 10: their keys are the texts \<open>9\<close> and \<open>10\<close>, and the sort puts
  \<open>10\<close> first, since it compares the keys as texts.
\<close>

lemma aggregateData_example_average:
  "aggregateData sample_env
     (Some [[(''Region'', Str ''East''), (''Sales'', Num (Fin 100))],
            [(''Region'', Str ''East''), (''Sales'', Num (Fin 50))],
            [(''Region'', Str ''West''), (''Sales'', Num (Fin 80))]])
     ''Region'' ''Sales'' Average
   = Inr [[(''Region'', Str ''East''), (''Sales'', Num (Fin 75))],
          [(''Region'', Str ''West''), (''Sales'', Num (Fin 80))]]"
  by (simp add: aggregate_defs sample_env_def)

lemma aggregateData_numeric_keys_in_text_order:
  "aggregateData sample_env
     (Some [[(''Year'', Num (Fin 9)), (''Sales'', Num (Fin 1))],
            [(''Year'', Num (Fin 10)), (''Sales'', Num (Fin 1))]])
     ''Year'' ''Sales'' Sum
   = Inr [[(''Year'', Str ''10''), (''Sales'', Num (Fin 1))],
          [(''Year'', Str ''9''), (''Sales'', Num (Fin 1))]]"
  by (simp add: aggregate_defs sample_env_def decimal.simps)

section \<open>The aggregation engine on inputs it mishandles\<close>

text \<open>
  C1. The claim: a group none of whose measure values is a number is left out of the
  output. \<open>aggregateData\<close> of \<open>utils/dataProcessor.ts\<close> does not leave it out: on
  the single row \<open>{Region: "East"}\<close>, which has no \<open>Sales\<close>, it returns the group
  \<open>East\<close> with \<open>0\<close> for Sum, \<open>0\<close> for Count and \<open>NaN\<close> for Average, in every
  environment.
\<close>

theorem aggregateData_emits_empty_group:
  "aggregateData env (Some [[(''Region'', Str ''East'')]]) ''Region'' ''Sales'' Sum
     = Inr [[(''Region'', Str ''East''), (''Sales'', Num (Fin 0))]]
   \<and> aggregateData env (Some [[(''Region'', Str ''East'')]]) ''Region'' ''Sales'' Count
     = Inr [[(''Region'', Str ''East''), (''Sales'', Num (Fin 0))]]
   \<and> aggregateData env (Some [[(''Region'', Str ''East'')]]) ''Region'' ''Sales'' Average
     = Inr [[(''Region'', Str ''East''), (''Sales'', Num NaN)]]"
  by (simp add: aggregate_defs)

text \<open>
  C2. The claim: the output is sorted by group key and is the same for every order of
  the input rows, also in the frequency case. The frequency branch returns before the
  sort: the rows \<open>b, a, a\<close> of column \<open>R\<close> give the count of \<open>b\<close> before the count
  of \<open>a\<close>, and the same rows in the order \<open>a, a, b\<close> give another output.
\<close>

theorem aggregateData_frequency_follows_row_order:
  "aggregateData env (Some [[(''R'', Str ''b'')], [(''R'', Str ''a'')], [(''R'', Str ''a'')]])
       ''R'' ''R'' Count
     = Inr [[(''R'', Num (Fin 1))], [(''R'', Num (Fin 2))]]
   \<and> aggregateData env (Some [[(''R'', Str ''a'')], [(''R'', Str ''a'')], [(''R'', Str ''b'')]])
       ''R'' ''R'' Count
     = Inr [[(''R'', Num (Fin 2))], [(''R'', Num (Fin 1))]]"
  by (simp add: aggregate_defs)

text \<open>
  C3. The claim: in the frequency case every distinct value gets one output row with
  its number of occurrences, and the counts add up to the number of rows. A value that
  names a member of \<open>Object.prototype\<close> breaks it: \<open>counts[key]\<close> reads the inherited
  member, so the one row \<open>{R: "__proto__"}\<close> gives no output row at all, and the one
  row \<open>{R: "constructor"}\<close> gives a row whose count is a text.
\<close>

theorem aggregateData_frequency_inherited_key:
  "aggregateData env (Some [[(''R'', Str ''__proto__'')]]) ''R'' ''R'' Count = Inr []
   \<and> aggregateData env (Some [[(''R'', Str ''constructor'')]]) ''R'' ''R'' Count
     = Inr [[(''R'', Str (protoText env ''constructor'' @ ''1''))]]"
  by (simp add: aggregate_defs)

text \<open>
  C9. The claim: \<open>aggregateData\<close> never throws. A group key that names a member of
  \<open>Object.prototype\<close>, on a row whose measure is a number, makes it throw: no array is
  stored for the key, and \<open>push\<close> is called on the inherited member.
\<close>

theorem aggregateData_throws_on_inherited_key:
  "aggregateData env
     (Some [[(''Team'', Str ''constructor''), (''Points'', Num (Fin 1))]]) ''Team'' ''Points'' Sum
     = Inl TypeError"
  by (simp add: aggregate_defs)

text \<open>
  C10. The claim: the two copies of \<open>aggregateData\<close> return the same output on every
  input. On the single row \<open>{Region: "East"}\<close> they do not: the copy of
  \<open>unnamed/part_001\<close> skips the group with no numbers and returns the empty list.
\<close>

theorem aggregateData_variants_differ:
  "aggregateData_part_001 env (Some [[(''Region'', Str ''East'')]]) ''Region'' ''Sales'' Sum
     = Inr []
   \<and> aggregateData env (Some [[(''Region'', Str ''East'')]]) ''Region'' ''Sales'' Sum
     \<noteq> aggregateData_part_001 env (Some [[(''Region'', Str ''East'')]]) ''Region'' ''Sales'' Sum"
  by (simp add: aggregate_defs)

section \<open>Properties of the dashboard state\<close>

text \<open>
  C7. \<open>handleClearDashboard\<close> empties the chart list and changes no other state
  variable; in particular the dashboard title and the file name stay as they were.
\<close>

theorem handleClearDashboard_frame:
  "handleClearDashboard s = s\<lparr>charts := []\<rparr> \<and>
   charts (handleClearDashboard s) = [] \<and>
   dashboardTitle (handleClearDashboard s) = dashboardTitle s \<and>
   fileName (handleClearDashboard s) = fileName s"
  by (simp add: handleClearDashboard_def)

text \<open>
  C4. The claim: saving a config whose id is in the list keeps the length, and saving
  one whose id is new makes the list one longer. \<open>handleSaveChart\<close> does not look for
  the id; it goes by the edit mode. With no chart being edited it appends, also when
  the id is in the list already:
\<close>

theorem handleSaveChart_existing_id_appends:
  "editingChart (initial_state\<lparr>charts := [chartA]\<rparr>) = None \<and>
   id_chart chartA \<in> set (map id_chart (charts (initial_state\<lparr>charts := [chartA]\<rparr>))) \<and>
   length (charts (handleSaveChart chartA (initial_state\<lparr>charts := [chartA]\<rparr>))) = 2"
  by (simp add: handleSaveChart_def initial_state_def)

text \<open>
  C4, as the code has it: while a chart is being edited, every chart with the config's
  id is replaced by the config and the length stays; otherwise the config is appended
  and the list is one longer.
\<close>

theorem handleSaveChart_by_mode:
  "charts (handleSaveChart config s) =
     (case editingChart s of
        Some e \<Rightarrow> map (\<lambda>chart. if id_chart chart = id_chart config then config else chart) (charts s)
      | None \<Rightarrow> charts s @ [config])
   \<and> length (charts (handleSaveChart config s)) =
     (case editingChart s of Some e \<Rightarrow> length (charts s) | None \<Rightarrow> Suc (length (charts s)))"
  by (simp add: handleSaveChart_def split: option.split)

text \<open>Where the edit mode and the presence of the id go together, as they do when the
  config comes from the chart form, the length behaves as the claim of C4 says.\<close>

lemma handleSaveChart_when_mode_matches_id:
  assumes "editingChart s \<noteq> None \<longleftrightarrow> id_chart config \<in> id_chart ` set (charts s)"
  shows "length (charts (handleSaveChart config s)) =
           (if id_chart config \<in> id_chart ` set (charts s) then length (charts s)
            else Suc (length (charts s)))"
  using assms by (cases "editingChart s") (simp_all add: handleSaveChart_def)

lemma removeChart_absent_id:
  "i \<notin> id_chart ` set (charts s) \<Longrightarrow> removeChart i s = s"
proof -
  assume "i \<notin> id_chart ` set (charts s)"
  then have "filter (\<lambda>chart. id_chart chart \<noteq> i) (charts s) = charts s"
    by (auto simp: filter_id_conv)
  then show ?thesis by (simp add: removeChart_def)
qed

lemma lastIndexFrom_absent: "c \<notin> set s \<Longrightarrow> lastIndexFrom i c s found = found"
  by (induction s arbitrary: i found) auto



text \<open>A name with no dot, and a name whose only dot is its first character, are
  returned whole.\<close>

lemma getFileNameWithoutExtension_no_dot:
  "CHR ''.'' \<notin> set name \<Longrightarrow> getFileNameWithoutExtension name = name"
  by (simp add: getFileNameWithoutExtension_def substring_def lastIndexOf_def
      lastIndexFrom_absent Let_def)

lemma getFileNameWithoutExtension_leading_dot:
  "CHR ''.'' \<notin> set ext \<Longrightarrow> getFileNameWithoutExtension (''.'' @ ext) = ''.'' @ ext"
  by (simp add: getFileNameWithoutExtension_def substring_def lastIndexOf_def
      lastIndexFrom_absent Let_def)



text \<open>
  C8. The claim: a stored text that does not parse is deleted. The effect tests the
  text for truth before it parses it, so the empty text, which does not parse, is
  treated as an absent key and stays in the store:
\<close>

theorem restoreDashboard_keeps_empty_entry:
  "no_parse [] = None \<and>
   restoreDashboard no_parse
     (initial_state\<lparr>isAuthenticated := True\<rparr>, Map.empty(INSIGHTHUB_AUTOSAVE_KEY \<mapsto> []))
   = (initial_state\<lparr>isAuthenticated := True\<rparr>, Map.empty(INSIGHTHUB_AUTOSAVE_KEY \<mapsto> []))"
  by (simp add: restoreDashboard_def no_parse_def initial_state_def)

text \<open>The same for every parser: the empty text is not handed to it.\<close>

lemma restoreDashboard_empty_entry:
  "localStorage INSIGHTHUB_AUTOSAVE_KEY = Some [] \<Longrightarrow>
   restoreDashboard JSON_parse (s, localStorage) = (s, localStorage)"
  by (simp add: restoreDashboard_def)

text \<open>
  C8, as the code has it, for a logged-in session: with no entry, or with the empty
  text as entry, nothing is restored and the store is left as it is; with a non-empty
  entry that does not parse, nothing is restored and the entry is removed. The effect
  returns in every case (both exceptions of its body are caught).
\<close>

theorem restoreDashboard_absent_or_corrupt:
  "isAuthenticated s \<Longrightarrow>
   (localStorage INSIGHTHUB_AUTOSAVE_KEY = None
      \<longrightarrow> restoreDashboard JSON_parse (s, localStorage) = (s, localStorage)) \<and>
   (localStorage INSIGHTHUB_AUTOSAVE_KEY = Some []
      \<longrightarrow> restoreDashboard JSON_parse (s, localStorage) = (s, localStorage)) \<and>
   (\<forall>v. localStorage INSIGHTHUB_AUTOSAVE_KEY = Some v \<and> v \<noteq> [] \<and> JSON_parse v = None
      \<longrightarrow> restoreDashboard JSON_parse (s, localStorage)
          = (s, localStorage(INSIGHTHUB_AUTOSAVE_KEY := None)))"
  by (simp add: restoreDashboard_def)

theorem restoreDashboard_absent_or_corrupt_witness:
  "isAuthenticated (initial_state\<lparr>isAuthenticated := True\<rparr>) \<and>
   restoreDashboard no_parse (initial_state\<lparr>isAuthenticated := True\<rparr>, Map.empty)
     = (initial_state\<lparr>isAuthenticated := True\<rparr>, Map.empty) \<and>
   restoreDashboard no_parse
     (initial_state\<lparr>isAuthenticated := True\<rparr>, Map.empty(INSIGHTHUB_AUTOSAVE_KEY \<mapsto> ''{charts:''))
     = (initial_state\<lparr>isAuthenticated := True\<rparr>, Map.empty)"
proof -
  let ?s = "initial_state\<lparr>isAuthenticated := True\<rparr>"
  let ?store = "Map.empty(INSIGHTHUB_AUTOSAVE_KEY \<mapsto> ''{charts:'')"
  have auth: "isAuthenticated ?s"
    by (simp add: initial_state_def)
  have absent: "restoreDashboard no_parse (?s, Map.empty) = (?s, Map.empty)"
    using restoreDashboard_absent_or_corrupt [OF auth, of Map.empty no_parse] by simp
  have "?store INSIGHTHUB_AUTOSAVE_KEY = Some ''{charts:'' \<and> ''{charts:'' \<noteq> []
      \<and> no_parse ''{charts:'' = None"
    by (simp add: no_parse_def)
  then have "restoreDashboard no_parse (?s, ?store)
      = (?s, ?store(INSIGHTHUB_AUTOSAVE_KEY := None))"
    using restoreDashboard_absent_or_corrupt [OF auth, of ?store no_parse] by blast
  then have corrupt: "restoreDashboard no_parse (?s, ?store) = (?s, Map.empty)"
    by simp
  from auth absent corrupt show ?thesis by simp
qed

section \<open>Sorting the chart list\<close>

lemma count_list_insertBy: "count_list (insertBy cmp x ys) z = count_list (x # ys) z"
  by (induction ys) auto

lemma count_list_js_sort: "count_list (js_sort cmp xs) z = count_list xs z"
  by (induction xs) (simp_all add: js_sort_Nil js_sort_Cons count_list_insertBy)

lemma count_list_pos: "0 < count_list xs x \<longleftrightarrow> x \<in> set xs"
  using count_list_0_iff [of xs x] by auto

text \<open>A stable sorted arrangement is unique.\<close>

lemma stable_sorted_unique:
  fixes cmp :: "'a \<Rightarrow> 'a \<Rightarrow> int"
  assumes refl: "\<And>x. x \<in> set xs \<Longrightarrow> cmp x x \<le> 0"
  shows "sorted_wrt (\<lambda>a b. cmp a b \<le> 0) xs \<Longrightarrow> sorted_wrt (\<lambda>a b. cmp a b \<le> 0) ys
    \<Longrightarrow> (\<And>z. count_list xs z = count_list ys z)
    \<Longrightarrow> (\<And>k. k \<in> set xs \<Longrightarrow> filter (\<lambda>c. cmp c k \<le> 0 \<and> cmp k c \<le> 0) xs
                              = filter (\<lambda>c. cmp c k \<le> 0 \<and> cmp k c \<le> 0) ys)
    \<Longrightarrow> xs = ys"
  using refl
proof (induction xs arbitrary: ys)
  case Nil
  have "ys = []"
  proof (cases ys)
    case (Cons y ys')
    then have "count_list ys y \<noteq> 0" by simp
    with Nil.prems(3) [of y] show ?thesis by simp
  qed simp
  then show ?case by simp
next
  case (Cons x xs)
  have "count_list ys x \<noteq> 0"
    using Cons.prems(3) [of x] by simp
  then have xin: "x \<in> set ys"
    by (simp add: count_list_0_iff)
  then obtain y ys' where ys: "ys = y # ys'"
    by (cases ys) auto
  have "count_list (x # xs) y \<noteq> 0"
    using Cons.prems(3) [of y] ys by simp
  then have yin: "y \<in> set (x # xs)"
    by (simp only: count_list_0_iff) simp
  have xx: "cmp x x \<le> 0"
    using Cons.prems(5) by simp
  have xy: "cmp x y \<le> 0"
    using yin xx Cons.prems(1) by auto
  have yx: "cmp y x \<le> 0"
    using xin xx Cons.prems(2) ys by auto
  have "filter (\<lambda>c. cmp c x \<le> 0 \<and> cmp x c \<le> 0) (x # xs)
      = filter (\<lambda>c. cmp c x \<le> 0 \<and> cmp x c \<le> 0) (y # ys')"
    using Cons.prems(4) [of x] ys by simp
  then have eq: "x = y"
    using xx xy yx by simp
  have "xs = ys'"
  proof (rule Cons.IH)
    show "sorted_wrt (\<lambda>a b. cmp a b \<le> 0) xs"
      using Cons.prems(1) by simp
    show "sorted_wrt (\<lambda>a b. cmp a b \<le> 0) ys'"
      using Cons.prems(2) ys by simp
    show "\<And>z. count_list xs z = count_list ys' z"
    proof -
      fix z
      have "count_list (x # xs) z = count_list (x # ys') z"
        using Cons.prems(3) [of z] ys eq by simp
      then show "count_list xs z = count_list ys' z"
        by (simp split: if_splits)
    qed
    show "\<And>k. k \<in> set xs \<Longrightarrow> filter (\<lambda>c. cmp c k \<le> 0 \<and> cmp k c \<le> 0) xs
                              = filter (\<lambda>c. cmp c k \<le> 0 \<and> cmp k c \<le> 0) ys'"
    proof -
      fix k assume "k \<in> set xs"
      then have "filter (\<lambda>c. cmp c k \<le> 0 \<and> cmp k c \<le> 0) (x # xs)
          = filter (\<lambda>c. cmp c k \<le> 0 \<and> cmp k c \<le> 0) (x # ys')"
        using Cons.prems(4) [of k] ys eq by simp
      then show "filter (\<lambda>c. cmp c k \<le> 0 \<and> cmp k c \<le> 0) xs
          = filter (\<lambda>c. cmp c k \<le> 0 \<and> cmp k c \<le> 0) ys'"
        by (simp split: if_splits)
    qed
    show "\<And>z. z \<in> set xs \<Longrightarrow> cmp z z \<le> 0"
      using Cons.prems(5) by simp
  qed
  with eq ys show ?case by simp
qed


lemma sortedCharts_title_asc: "sortedCharts env ''title-asc'' cs = js_sort (byTitle env) cs"
  by (simp add: sortedCharts_def)

lemma sortedCharts_title_desc:
  "sortedCharts env ''title-desc'' cs = js_sort (\<lambda>a b. byTitle env b a) cs"
  by (simp add: sortedCharts_def)

lemma sortedCharts_comparator:
  "sortedCharts env sortOption cs = js_sort (chartComparator env sortOption) cs"
  by (simp add: sortedCharts_def chartComparator_def)

text \<open>What \<open>sortedCharts\<close> does to the store: the result is a new array holding the
  sorted list, and every array that was there before is as it was.\<close>

lemma sortedCharts_store_effect:
  assumes "chartsRef < fresh st"
  shows "fst (sortedCharts_store env sortOption chartsRef st) = fresh st"
    and "cells (snd (sortedCharts_store env sortOption chartsRef st)) (fresh st)
           = sortedCharts env sortOption (cells st chartsRef)"
    and "\<forall>a < fresh st. cells (snd (sortedCharts_store env sortOption chartsRef st)) a = cells st a"
  using assms
  by (simp_all add: sortedCharts_store_def spread_def sortInPlace_def sortedCharts_comparator)

text \<open>Both title sorts of a list whose titles \<open>localeCompare\<close> orders.\<close>

lemma title_sorts_sorted:
  assumes total: "\<forall>a\<in>set cs. \<forall>b\<in>set cs. byTitle env a b \<le> 0 \<or> byTitle env b a \<le> 0"
      and trans: "\<forall>a\<in>set cs. \<forall>b\<in>set cs. \<forall>c\<in>set cs.
        byTitle env a b \<le> 0 \<and> byTitle env b c \<le> 0 \<longrightarrow> byTitle env a c \<le> 0"
      and xs: "set xs \<subseteq> set cs"
  shows "sorted_wrt (\<lambda>a b. byTitle env a b \<le> 0) (js_sort (byTitle env) xs)"
    and "sorted_wrt (\<lambda>a b. byTitle env b a \<le> 0) (js_sort (\<lambda>a b. byTitle env b a) xs)"
proof -
  show "sorted_wrt (\<lambda>a b. byTitle env a b \<le> 0) (js_sort (byTitle env) xs)"
  proof (rule sorted_js_sort [where S = "set cs"])
    fix a b assume "a \<in> set cs" "b \<in> set cs"
    then show "byTitle env a b \<le> 0 \<or> byTitle env b a \<le> 0"
      using total by simp
  next
    fix a b c assume "a \<in> set cs" "b \<in> set cs" "c \<in> set cs"
      "byTitle env a b \<le> 0" "byTitle env b c \<le> 0"
    then show "byTitle env a c \<le> 0"
      using trans by blast
  next
    show "set xs \<subseteq> set cs" by (rule xs)
  qed
  show "sorted_wrt (\<lambda>a b. byTitle env b a \<le> 0) (js_sort (\<lambda>a b. byTitle env b a) xs)"
  proof (rule sorted_js_sort [where S = "set cs" and cmp = "\<lambda>a b. byTitle env b a"])
    fix a b assume "a \<in> set cs" "b \<in> set cs"
    then show "byTitle env b a \<le> 0 \<or> byTitle env a b \<le> 0"
      using total by blast
  next
    fix a b c assume "a \<in> set cs" "b \<in> set cs" "c \<in> set cs"
      "byTitle env b a \<le> 0" "byTitle env c b \<le> 0"
    then show "byTitle env c a \<le> 0"
      using trans by blast
  next
    show "set xs \<subseteq> set cs" by (rule xs)
  qed
qed

lemma title_sorts_keep_ties:
  assumes trans: "\<forall>a\<in>set cs. \<forall>b\<in>set cs. \<forall>c\<in>set cs.
        byTitle env a b \<le> 0 \<and> byTitle env b c \<le> 0 \<longrightarrow> byTitle env a c \<le> 0"
      and k: "k \<in> set cs" and xs: "set xs \<subseteq> set cs"
  shows "filter (\<lambda>c. byTitle env c k \<le> 0 \<and> byTitle env k c \<le> 0) (js_sort (byTitle env) xs)
           = filter (\<lambda>c. byTitle env c k \<le> 0 \<and> byTitle env k c \<le> 0) xs"
    and "filter (\<lambda>c. byTitle env c k \<le> 0 \<and> byTitle env k c \<le> 0)
             (js_sort (\<lambda>a b. byTitle env b a) xs)
           = filter (\<lambda>c. byTitle env c k \<le> 0 \<and> byTitle env k c \<le> 0) xs"
proof -
  have tie: "\<And>x y. x \<in> set xs \<Longrightarrow> y \<in> set xs
      \<Longrightarrow> byTitle env x k \<le> 0 \<Longrightarrow> byTitle env k y \<le> 0 \<Longrightarrow> byTitle env x y \<le> 0"
  proof -
    fix x y assume "x \<in> set xs" "y \<in> set xs" and le: "byTitle env x k \<le> 0" "byTitle env k y \<le> 0"
    then have "x \<in> set cs" "y \<in> set cs" using xs by auto
    with le k show "byTitle env x y \<le> 0" using trans by blast
  qed
  show "filter (\<lambda>c. byTitle env c k \<le> 0 \<and> byTitle env k c \<le> 0) (js_sort (byTitle env) xs)
           = filter (\<lambda>c. byTitle env c k \<le> 0 \<and> byTitle env k c \<le> 0) xs"
    by (rule js_sort_stable) (use tie in blast)
  show "filter (\<lambda>c. byTitle env c k \<le> 0 \<and> byTitle env k c \<le> 0)
             (js_sort (\<lambda>a b. byTitle env b a) xs)
           = filter (\<lambda>c. byTitle env c k \<le> 0 \<and> byTitle env k c \<le> 0) xs"
    by (rule js_sort_stable) (use tie in blast)
qed

lemma sorted_wrt_strict:
  assumes "sorted_wrt (\<lambda>a b. cmp a b \<le> (0::int)) ys" and "distinct ys"
      and "\<And>a b. a \<in> set ys \<Longrightarrow> b \<in> set ys \<Longrightarrow> cmp a b \<le> 0 \<Longrightarrow> cmp b a \<le> 0 \<Longrightarrow> a = b"
  shows "sorted_wrt (\<lambda>a b. 0 < cmp b a) ys"
  using assms
proof (induction ys)
  case Nil
  then show ?case by simp
next
  case (Cons y ys)
  have "\<forall>z\<in>set ys. 0 < cmp z y"
  proof
    fix z assume z: "z \<in> set ys"
    then have "cmp y z \<le> 0" and "y \<noteq> z"
      using Cons.prems(1,2) by auto
    then show "0 < cmp z y"
      using Cons.prems(3) [of y z] z by force
  qed
  moreover have "sorted_wrt (\<lambda>a b. 0 < cmp b a) ys"
    using Cons by simp
  ultimately show ?case by simp
qed

lemma title_desc_reverses_asc:
  assumes total: "\<forall>a\<in>set cs. \<forall>b\<in>set cs. byTitle env a b \<le> 0 \<or> byTitle env b a \<le> 0"
      and trans: "\<forall>a\<in>set cs. \<forall>b\<in>set cs. \<forall>c\<in>set cs.
        byTitle env a b \<le> 0 \<and> byTitle env b c \<le> 0 \<longrightarrow> byTitle env a c \<le> 0"
      and antisym: "\<forall>a\<in>set cs. \<forall>b\<in>set cs. byTitle env a b \<le> 0 \<and> byTitle env b a \<le> 0 \<longrightarrow> a = b"
      and dist: "distinct cs"
  shows "js_sort (\<lambda>a b. byTitle env b a) (js_sort (byTitle env) cs) = rev (js_sort (byTitle env) cs)"
proof -
  let ?asc = "js_sort (byTitle env) cs"
  have sorted: "sorted_wrt (\<lambda>a b. byTitle env a b \<le> 0) ?asc"
  proof (rule sorted_js_sort [where S = "set cs"])
    fix a b assume "a \<in> set cs" "b \<in> set cs"
    then show "byTitle env a b \<le> 0 \<or> byTitle env b a \<le> 0"
      using total by simp
  next
    fix a b c assume "a \<in> set cs" "b \<in> set cs" "c \<in> set cs"
      "byTitle env a b \<le> 0" "byTitle env b c \<le> 0"
    then show "byTitle env a c \<le> 0"
      using trans by blast
  next
    show "set cs \<subseteq> set cs" by simp
  qed
  have d: "distinct ?asc"
    using dist by (simp add: distinct_js_sort)
  have "sorted_wrt (\<lambda>a b. 0 < byTitle env b a) ?asc"
  proof (rule sorted_wrt_strict [OF sorted d])
    fix a b assume "a \<in> set ?asc" "b \<in> set ?asc" "byTitle env a b \<le> 0" "byTitle env b a \<le> 0"
    then have "a \<in> set cs" "b \<in> set cs" by (simp_all add: set_js_sort)
    with \<open>byTitle env a b \<le> 0\<close> \<open>byTitle env b a \<le> 0\<close> show "a = b"
      using antisym by blast
  qed
  then show ?thesis
    by (rule js_sort_reverses)
qed


lemma title_desc_after_asc_is_desc:
  assumes total: "\<forall>a\<in>set cs. \<forall>b\<in>set cs. byTitle env a b \<le> 0 \<or> byTitle env b a \<le> 0"
      and trans: "\<forall>a\<in>set cs. \<forall>b\<in>set cs. \<forall>c\<in>set cs.
        byTitle env a b \<le> 0 \<and> byTitle env b c \<le> 0 \<longrightarrow> byTitle env a c \<le> 0"
  shows "js_sort (\<lambda>a b. byTitle env b a) (js_sort (byTitle env) cs)
           = js_sort (\<lambda>a b. byTitle env b a) cs"
proof (rule stable_sorted_unique [where cmp = "\<lambda>a b. byTitle env b a"])
  let ?asc = "js_sort (byTitle env) cs"
  have sub: "set ?asc \<subseteq> set cs"
    by (simp add: set_js_sort)
  show "sorted_wrt (\<lambda>a b. byTitle env b a \<le> 0) (js_sort (\<lambda>a b. byTitle env b a) ?asc)"
    using total trans sub by (rule title_sorts_sorted(2))
  show "sorted_wrt (\<lambda>a b. byTitle env b a \<le> 0) (js_sort (\<lambda>a b. byTitle env b a) cs)"
    using total trans subset_refl by (rule title_sorts_sorted(2))
  show "\<And>z. count_list (js_sort (\<lambda>a b. byTitle env b a) ?asc) z
      = count_list (js_sort (\<lambda>a b. byTitle env b a) cs) z"
    by (simp add: count_list_js_sort)
  show "\<And>x. x \<in> set (js_sort (\<lambda>a b. byTitle env b a) ?asc) \<Longrightarrow> byTitle env x x \<le> 0"
    using total by (auto simp: set_js_sort)
  show "\<And>k. k \<in> set (js_sort (\<lambda>a b. byTitle env b a) ?asc) \<Longrightarrow>
      filter (\<lambda>c. byTitle env k c \<le> 0 \<and> byTitle env c k \<le> 0)
        (js_sort (\<lambda>a b. byTitle env b a) ?asc)
      = filter (\<lambda>c. byTitle env k c \<le> 0 \<and> byTitle env c k \<le> 0)
        (js_sort (\<lambda>a b. byTitle env b a) cs)"
  proof -
    fix k assume "k \<in> set (js_sort (\<lambda>a b. byTitle env b a) ?asc)"
    then have k: "k \<in> set cs"
      by (simp add: set_js_sort)
    have swap: "(\<lambda>c. byTitle env k c \<le> 0 \<and> byTitle env c k \<le> 0)
        = (\<lambda>c. byTitle env c k \<le> 0 \<and> byTitle env k c \<le> 0)"
      by auto
    have "filter (\<lambda>c. byTitle env c k \<le> 0 \<and> byTitle env k c \<le> 0)
        (js_sort (\<lambda>a b. byTitle env b a) ?asc)
        = filter (\<lambda>c. byTitle env c k \<le> 0 \<and> byTitle env k c \<le> 0) ?asc"
      using trans k sub by (rule title_sorts_keep_ties(2))
    also have "\<dots> = filter (\<lambda>c. byTitle env c k \<le> 0 \<and> byTitle env k c \<le> 0) cs"
      using trans k subset_refl by (rule title_sorts_keep_ties(1))
    also have "\<dots> = filter (\<lambda>c. byTitle env c k \<le> 0 \<and> byTitle env k c \<le> 0)
        (js_sort (\<lambda>a b. byTitle env b a) cs)"
      using title_sorts_keep_ties(2) [OF trans k subset_refl] by simp
    finally show "filter (\<lambda>c. byTitle env k c \<le> 0 \<and> byTitle env c k \<le> 0)
        (js_sort (\<lambda>a b. byTitle env b a) ?asc)
      = filter (\<lambda>c. byTitle env k c \<le> 0 \<and> byTitle env c k \<le> 0)
        (js_sort (\<lambda>a b. byTitle env b a) cs)"
      unfolding swap .
  qed
qed

lemma distinct_palindrome: "distinct xs \<Longrightarrow> xs = rev xs \<Longrightarrow> length xs \<le> 1"
proof (cases xs)
  case Nil
  then show ?thesis by simp
next
  case (Cons x xs')
  assume d: "distinct xs" and p: "xs = rev xs"
  show ?thesis
  proof (cases "xs' = []")
    case True
    with Cons show ?thesis by simp
  next
    case False
    have "hd xs = hd (rev xs)" using p by simp
    then have "x = last xs'"
      using Cons False by (simp add: hd_rev)
    then have "x \<in> set xs'" using False by simp
    with d Cons show ?thesis by simp
  qed
qed

lemma short_list_one: "length xs \<le> 1 \<Longrightarrow> x \<in> set xs \<Longrightarrow> y \<in> set xs \<Longrightarrow> x = y"
  by (cases xs) auto

lemma title_desc_reverse_iff:
  assumes total: "\<forall>a\<in>set cs. \<forall>b\<in>set cs. byTitle env a b \<le> 0 \<or> byTitle env b a \<le> 0"
      and trans: "\<forall>a\<in>set cs. \<forall>b\<in>set cs. \<forall>c\<in>set cs.
        byTitle env a b \<le> 0 \<and> byTitle env b c \<le> 0 \<longrightarrow> byTitle env a c \<le> 0"
      and dist: "distinct cs"
  shows "js_sort (\<lambda>a b. byTitle env b a) (js_sort (byTitle env) cs) = rev (js_sort (byTitle env) cs)
     \<longleftrightarrow> (\<forall>a\<in>set cs. \<forall>b\<in>set cs. byTitle env a b \<le> 0 \<and> byTitle env b a \<le> 0 \<longrightarrow> a = b)"
proof
  assume "\<forall>a\<in>set cs. \<forall>b\<in>set cs. byTitle env a b \<le> 0 \<and> byTitle env b a \<le> 0 \<longrightarrow> a = b"
  with total trans show "js_sort (\<lambda>a b. byTitle env b a) (js_sort (byTitle env) cs)
      = rev (js_sort (byTitle env) cs)"
    using dist by (rule title_desc_reverses_asc)
next
  let ?asc = "js_sort (byTitle env) cs"
  assume eq: "js_sort (\<lambda>a b. byTitle env b a) ?asc = rev ?asc"
  show "\<forall>a\<in>set cs. \<forall>b\<in>set cs. byTitle env a b \<le> 0 \<and> byTitle env b a \<le> 0 \<longrightarrow> a = b"
  proof (intro ballI impI)
    fix a b assume a: "a \<in> set cs" and b: "b \<in> set cs"
      and tie: "byTitle env a b \<le> 0 \<and> byTitle env b a \<le> 0"
    let ?F = "filter (\<lambda>c. byTitle env c a \<le> 0 \<and> byTitle env a c \<le> 0)"
    have sub: "set ?asc \<subseteq> set cs"
      by (simp add: set_js_sort)
    have asc: "?F ?asc = ?F cs"
      using trans a subset_refl by (rule title_sorts_keep_ties(1))
    have "?F (js_sort (\<lambda>a b. byTitle env b a) ?asc) = ?F ?asc"
      using trans a sub by (rule title_sorts_keep_ties(2))
    with asc have "?F (rev ?asc) = ?F cs"
      using eq by simp
    moreover have "?F (rev ?asc) = rev (?F ?asc)"
      by (rule rev_filter [symmetric])
    ultimately have "?F cs = rev (?F cs)"
      using asc by (simp only:)
    moreover have "distinct (?F cs)"
      using dist by simp
    ultimately have short: "length (?F cs) \<le> 1"
      using distinct_palindrome by blast
    have "byTitle env a a \<le> 0"
      using total a by blast
    then have "a \<in> set (?F cs)" and "b \<in> set (?F cs)"
      using a b tie by simp_all
    with short show "a = b"
      by (rule short_list_one)
  qed
qed


lemma title_sorts_stable:
  assumes total: "\<forall>a\<in>set cs. \<forall>b\<in>set cs. byTitle env a b \<le> 0 \<or> byTitle env b a \<le> 0"
      and xs: "set xs \<subseteq> set cs"
  shows "filter (\<lambda>c. title c = t) (js_sort (byTitle env) xs) = filter (\<lambda>c. title c = t) xs"
    and "filter (\<lambda>c. title c = t) (js_sort (\<lambda>a b. byTitle env b a) xs)
           = filter (\<lambda>c. title c = t) xs"
proof -
  have same: "\<And>x y. x \<in> set xs \<Longrightarrow> y \<in> set xs \<Longrightarrow> title x = t \<Longrightarrow> title y = t
      \<Longrightarrow> byTitle env x y \<le> 0"
  proof -
    fix x y assume x: "x \<in> set xs" and "y \<in> set xs" and t: "title x = t" "title y = t"
    have "byTitle env x x \<le> 0" using total x xs by blast
    then show "byTitle env x y \<le> 0" using t by (simp add: byTitle_def)
  qed
  show "filter (\<lambda>c. title c = t) (js_sort (byTitle env) xs) = filter (\<lambda>c. title c = t) xs"
    by (rule js_sort_stable) (use same in blast)
  show "filter (\<lambda>c. title c = t) (js_sort (\<lambda>a b. byTitle env b a) xs)
           = filter (\<lambda>c. title c = t) xs"
    by (rule js_sort_stable) (use same in blast)
qed

text \<open>
  C5, as the code has it, for a list whose titles \<open>localeCompare\<close> orders (it is total
  and transitive on them). Sorting by \<open>title-asc\<close> gives the same configs in ascending
  order of title, and sorting that result by \<open>title-desc\<close> gives the same configs in
  descending order of title: the list that sorting the original by \<open>title-desc\<close>
  gives. In both results the configs with one title, and more generally the configs
  whose titles compare equal, stand in their original order (the sort is stable). So
  the second result is the first with the order of the different titles inverted and
  the tied configs left as they were: for a list with no repeated config it is the
  exact reverse of the first result if and only if no two different configs have
  titles that compare equal. Neither sort changes its input: \<open>sortedCharts\<close> sorts a
  new array, and every array that was in the store before the call is unchanged.
\<close>

theorem sortedCharts_title_desc_after_asc:
  assumes total: "\<forall>a\<in>set cs. \<forall>b\<in>set cs. byTitle env a b \<le> 0 \<or> byTitle env b a \<le> 0"
      and trans: "\<forall>a\<in>set cs. \<forall>b\<in>set cs. \<forall>c\<in>set cs.
        byTitle env a b \<le> 0 \<and> byTitle env b c \<le> 0 \<longrightarrow> byTitle env a c \<le> 0"
  shows
    "(\<forall>z. count_list (sortedCharts env ''title-asc'' cs) z = count_list cs z \<and>
          count_list (sortedCharts env ''title-desc'' (sortedCharts env ''title-asc'' cs)) z
            = count_list cs z)
     \<and> sorted_wrt (\<lambda>a b. byTitle env a b \<le> 0) (sortedCharts env ''title-asc'' cs)
     \<and> sorted_wrt (\<lambda>a b. byTitle env b a \<le> 0)
          (sortedCharts env ''title-desc'' (sortedCharts env ''title-asc'' cs))
     \<and> (\<forall>t. filter (\<lambda>c. title c = t) (sortedCharts env ''title-asc'' cs)
            = filter (\<lambda>c. title c = t) cs \<and>
          filter (\<lambda>c. title c = t)
              (sortedCharts env ''title-desc'' (sortedCharts env ''title-asc'' cs))
            = filter (\<lambda>c. title c = t) cs)
     \<and> (\<forall>k\<in>set cs.
          filter (\<lambda>c. byTitle env c k \<le> 0 \<and> byTitle env k c \<le> 0)
              (sortedCharts env ''title-asc'' cs)
            = filter (\<lambda>c. byTitle env c k \<le> 0 \<and> byTitle env k c \<le> 0) cs \<and>
          filter (\<lambda>c. byTitle env c k \<le> 0 \<and> byTitle env k c \<le> 0)
              (sortedCharts env ''title-desc'' (sortedCharts env ''title-asc'' cs))
            = filter (\<lambda>c. byTitle env c k \<le> 0 \<and> byTitle env k c \<le> 0) cs)
     \<and> sortedCharts env ''title-desc'' (sortedCharts env ''title-asc'' cs)
          = sortedCharts env ''title-desc'' cs
     \<and> (distinct cs \<longrightarrow>
          (sortedCharts env ''title-desc'' (sortedCharts env ''title-asc'' cs)
             = rev (sortedCharts env ''title-asc'' cs)
           \<longleftrightarrow> (\<forall>a\<in>set cs. \<forall>b\<in>set cs.
                  byTitle env a b \<le> 0 \<and> byTitle env b a \<le> 0 \<longrightarrow> a = b)))
     \<and> (\<forall>sortOption chartsRef st. chartsRef < fresh st \<longrightarrow>
          cells (snd (sortedCharts_store env sortOption chartsRef st))
                (fst (sortedCharts_store env sortOption chartsRef st))
            = sortedCharts env sortOption (cells st chartsRef) \<and>
          (\<forall>a. a < fresh st \<longrightarrow>
             cells (snd (sortedCharts_store env sortOption chartsRef st)) a = cells st a))"
proof -
  let ?asc = "js_sort (byTitle env) cs"
  let ?second = "js_sort (\<lambda>a b. byTitle env b a) ?asc"
  have sub: "set ?asc \<subseteq> set cs"
    by (simp add: set_js_sort)
  have asc: "sortedCharts env ''title-asc'' cs = ?asc"
    by (rule sortedCharts_title_asc)
  have second: "sortedCharts env ''title-desc'' ?asc = ?second"
    by (rule sortedCharts_title_desc)
  have desc: "sortedCharts env ''title-desc'' cs = js_sort (\<lambda>a b. byTitle env b a) cs"
    by (rule sortedCharts_title_desc)
  have counts: "\<forall>z. count_list ?asc z = count_list cs z \<and> count_list ?second z = count_list cs z"
    by (simp add: count_list_js_sort)
  have sorted1: "sorted_wrt (\<lambda>a b. byTitle env a b \<le> 0) ?asc"
    using total trans subset_refl by (rule title_sorts_sorted(1))
  have sorted2: "sorted_wrt (\<lambda>a b. byTitle env b a \<le> 0) ?second"
    using total trans sub by (rule title_sorts_sorted(2))
  have titles: "\<forall>t. filter (\<lambda>c. title c = t) ?asc = filter (\<lambda>c. title c = t) cs \<and>
      filter (\<lambda>c. title c = t) ?second = filter (\<lambda>c. title c = t) cs"
  proof
    fix t
    have a: "filter (\<lambda>c. title c = t) ?asc = filter (\<lambda>c. title c = t) cs"
      using total subset_refl by (rule title_sorts_stable(1))
    have "filter (\<lambda>c. title c = t) ?second = filter (\<lambda>c. title c = t) ?asc"
      using total sub by (rule title_sorts_stable(2))
    with a show "filter (\<lambda>c. title c = t) ?asc = filter (\<lambda>c. title c = t) cs \<and>
      filter (\<lambda>c. title c = t) ?second = filter (\<lambda>c. title c = t) cs"
      by simp
  qed
  have ties: "\<forall>k\<in>set cs.
      filter (\<lambda>c. byTitle env c k \<le> 0 \<and> byTitle env k c \<le> 0) ?asc
        = filter (\<lambda>c. byTitle env c k \<le> 0 \<and> byTitle env k c \<le> 0) cs \<and>
      filter (\<lambda>c. byTitle env c k \<le> 0 \<and> byTitle env k c \<le> 0) ?second
        = filter (\<lambda>c. byTitle env c k \<le> 0 \<and> byTitle env k c \<le> 0) cs"
  proof
    fix k assume k: "k \<in> set cs"
    have a: "filter (\<lambda>c. byTitle env c k \<le> 0 \<and> byTitle env k c \<le> 0) ?asc
        = filter (\<lambda>c. byTitle env c k \<le> 0 \<and> byTitle env k c \<le> 0) cs"
      using trans k subset_refl by (rule title_sorts_keep_ties(1))
    have "filter (\<lambda>c. byTitle env c k \<le> 0 \<and> byTitle env k c \<le> 0) ?second
        = filter (\<lambda>c. byTitle env c k \<le> 0 \<and> byTitle env k c \<le> 0) ?asc"
      using trans k sub by (rule title_sorts_keep_ties(2))
    with a show "filter (\<lambda>c. byTitle env c k \<le> 0 \<and> byTitle env k c \<le> 0) ?asc
        = filter (\<lambda>c. byTitle env c k \<le> 0 \<and> byTitle env k c \<le> 0) cs \<and>
      filter (\<lambda>c. byTitle env c k \<le> 0 \<and> byTitle env k c \<le> 0) ?second
        = filter (\<lambda>c. byTitle env c k \<le> 0 \<and> byTitle env k c \<le> 0) cs"
      by simp
  qed
  have same: "?second = js_sort (\<lambda>a b. byTitle env b a) cs"
    using total trans by (rule title_desc_after_asc_is_desc)
  have reverse: "distinct cs \<longrightarrow>
      (?second = rev ?asc
       \<longleftrightarrow> (\<forall>a\<in>set cs. \<forall>b\<in>set cs. byTitle env a b \<le> 0 \<and> byTitle env b a \<le> 0 \<longrightarrow> a = b))"
    using title_desc_reverse_iff [OF total trans] by (rule impI)
  have memory: "\<forall>sortOption chartsRef st. chartsRef < fresh st \<longrightarrow>
      cells (snd (sortedCharts_store env sortOption chartsRef st))
            (fst (sortedCharts_store env sortOption chartsRef st))
        = sortedCharts env sortOption (cells st chartsRef) \<and>
      (\<forall>a. a < fresh st \<longrightarrow>
         cells (snd (sortedCharts_store env sortOption chartsRef st)) a = cells st a)"
    using sortedCharts_store_effect by simp
  show ?thesis
    unfolding asc second desc
    using counts sorted1 sorted2 titles ties same reverse memory
    by (intro conjI)
qed


lemmas chart_sort_defs = sortedCharts_def js_sort_def byTitle_def sample_env_def

text \<open>
  C5. The claim: sorting by \<open>title-asc\<close> and then by \<open>title-desc\<close> gives the exact
  reverse of the first result, also with equal titles. Two configs with the title
  \<open>SALES\<close> keep their order in both sorts, so the second result is the first one
  again, not its reverse:
\<close>

theorem sortedCharts_ties_not_reversed:
  "sortedCharts sample_env ''title-desc'' (sortedCharts sample_env ''title-asc'' [chartA, chartB])
     = [chartA, chartB] \<and>
   rev (sortedCharts sample_env ''title-asc'' [chartA, chartB]) = [chartB, chartA] \<and>
   chartA \<noteq> chartB"
proof -
  have t: "title chartA = ''SALES''" "title chartB = ''SALES''"
    by (simp_all add: chartA_def chartB_def)
  have asc: "sortedCharts sample_env ''title-asc'' [chartA, chartB] = [chartA, chartB]"
    by (simp add: chart_sort_defs t)
  have desc: "sortedCharts sample_env ''title-desc'' [chartA, chartB] = [chartA, chartB]"
    by (simp add: chart_sort_defs t)
  have ne: "chartA \<noteq> chartB"
    by (simp add: chartA_def chartB_def)
  from asc desc ne show ?thesis by simp
qed

theorem sortedCharts_title_desc_after_asc_witness:
  "sortedCharts sample_env ''title-asc'' [chartA, chartB, chartC] = [chartC, chartA, chartB] \<and>
   sortedCharts sample_env ''title-desc''
       (sortedCharts sample_env ''title-asc'' [chartA, chartB, chartC])
     = sortedCharts sample_env ''title-desc'' [chartA, chartB, chartC] \<and>
   sorted_wrt (\<lambda>a b. byTitle sample_env b a \<le> 0)
     (sortedCharts sample_env ''title-desc''
        (sortedCharts sample_env ''title-asc'' [chartA, chartB, chartC])) \<and>
   sortedCharts sample_env ''title-desc''
       (sortedCharts sample_env ''title-asc'' [chartA, chartB, chartC])
     \<noteq> rev (sortedCharts sample_env ''title-asc'' [chartA, chartB, chartC]) \<and>
   sortedCharts sample_env ''title-desc'' (sortedCharts sample_env ''title-asc'' [chartA, chartC])
     = rev (sortedCharts sample_env ''title-asc'' [chartA, chartC]) \<and>
   cells (snd (sortedCharts_store sample_env ''title-asc'' 0
                 \<lparr>cells = (\<lambda>a. [])(0 := [chartA, chartB, chartC]), fresh = 1\<rparr>)) 0
     = [chartA, chartB, chartC]"
proof -
  let ?cs = "[chartA, chartB, chartC]"
  let ?st = "\<lparr>cells = (\<lambda>a. [])(0 := ?cs), fresh = 1\<rparr> :: ChartConfig store"
  have t: "title chartA = ''SALES''" "title chartB = ''SALES''" "title chartC = ''COSTS''"
    by (simp_all add: chartA_def chartB_def chartC_def)
  have ne: "chartA \<noteq> chartB" "chartA \<noteq> chartC" "chartB \<noteq> chartC"
    by (simp_all add: chartA_def chartB_def chartC_def)
  have total: "\<forall>a\<in>set ?cs. \<forall>b\<in>set ?cs. byTitle sample_env a b \<le> 0 \<or> byTitle sample_env b a \<le> 0"
    by (simp add: byTitle_def sample_env_def t)
  have trans: "\<forall>a\<in>set ?cs. \<forall>b\<in>set ?cs. \<forall>c\<in>set ?cs.
      byTitle sample_env a b \<le> 0 \<and> byTitle sample_env b c \<le> 0 \<longrightarrow> byTitle sample_env a c \<le> 0"
    by (simp add: byTitle_def sample_env_def t)
  note all = sortedCharts_title_desc_after_asc [OF total trans]
  have asc: "sortedCharts sample_env ''title-asc'' ?cs = [chartC, chartA, chartB]"
    by (simp add: chart_sort_defs t)
  have sorted: "sorted_wrt (\<lambda>a b. byTitle sample_env b a \<le> 0)
     (sortedCharts sample_env ''title-desc'' (sortedCharts sample_env ''title-asc'' ?cs))"
    using all by (elim conjE)
  have same: "sortedCharts sample_env ''title-desc'' (sortedCharts sample_env ''title-asc'' ?cs)
     = sortedCharts sample_env ''title-desc'' ?cs"
    using all by (elim conjE)
  have iff: "distinct ?cs \<longrightarrow>
      (sortedCharts sample_env ''title-desc'' (sortedCharts sample_env ''title-asc'' ?cs)
         = rev (sortedCharts sample_env ''title-asc'' ?cs)
       \<longleftrightarrow> (\<forall>a\<in>set ?cs. \<forall>b\<in>set ?cs.
              byTitle sample_env a b \<le> 0 \<and> byTitle sample_env b a \<le> 0 \<longrightarrow> a = b))"
    using all by (elim conjE)
  have tie: "\<not> (\<forall>a\<in>set ?cs. \<forall>b\<in>set ?cs.
              byTitle sample_env a b \<le> 0 \<and> byTitle sample_env b a \<le> 0 \<longrightarrow> a = b)"
    using ne by (simp add: byTitle_def sample_env_def t)
  have "distinct ?cs"
    using ne by simp
  with iff tie have notrev:
    "sortedCharts sample_env ''title-desc'' (sortedCharts sample_env ''title-asc'' ?cs)
       \<noteq> rev (sortedCharts sample_env ''title-asc'' ?cs)"
    by blast
  have total2: "\<forall>a\<in>set [chartA, chartC]. \<forall>b\<in>set [chartA, chartC].
      byTitle sample_env a b \<le> 0 \<or> byTitle sample_env b a \<le> 0"
    by (simp add: byTitle_def sample_env_def t)
  have trans2: "\<forall>a\<in>set [chartA, chartC]. \<forall>b\<in>set [chartA, chartC]. \<forall>c\<in>set [chartA, chartC].
      byTitle sample_env a b \<le> 0 \<and> byTitle sample_env b c \<le> 0 \<longrightarrow> byTitle sample_env a c \<le> 0"
    by (simp add: byTitle_def sample_env_def t)
  have iff2: "distinct [chartA, chartC] \<longrightarrow>
      (sortedCharts sample_env ''title-desc'' (sortedCharts sample_env ''title-asc'' [chartA, chartC])
         = rev (sortedCharts sample_env ''title-asc'' [chartA, chartC])
       \<longleftrightarrow> (\<forall>a\<in>set [chartA, chartC]. \<forall>b\<in>set [chartA, chartC].
              byTitle sample_env a b \<le> 0 \<and> byTitle sample_env b a \<le> 0 \<longrightarrow> a = b))"
    using sortedCharts_title_desc_after_asc [OF total2 trans2] by (elim conjE)
  have notie: "\<forall>a\<in>set [chartA, chartC]. \<forall>b\<in>set [chartA, chartC].
              byTitle sample_env a b \<le> 0 \<and> byTitle sample_env b a \<le> 0 \<longrightarrow> a = b"
    by (simp add: byTitle_def sample_env_def t)
  have "distinct [chartA, chartC]"
    using ne by simp
  with iff2 notie have isrev:
    "sortedCharts sample_env ''title-desc'' (sortedCharts sample_env ''title-asc'' [chartA, chartC])
       = rev (sortedCharts sample_env ''title-asc'' [chartA, chartC])"
    by blast
  have memory: "\<forall>sortOption chartsRef st. chartsRef < fresh st \<longrightarrow>
      cells (snd (sortedCharts_store sample_env sortOption chartsRef st))
            (fst (sortedCharts_store sample_env sortOption chartsRef st))
        = sortedCharts sample_env sortOption (cells st chartsRef) \<and>
      (\<forall>a. a < fresh st \<longrightarrow>
         cells (snd (sortedCharts_store sample_env sortOption chartsRef st)) a = cells st a)"
    using all by (elim conjE)
  have "(0::nat) < fresh ?st"
    by simp
  with memory have "cells (snd (sortedCharts_store sample_env ''title-asc'' 0 ?st)) 0 = cells ?st 0"
    by blast
  then have kept: "cells (snd (sortedCharts_store sample_env ''title-asc'' 0 ?st)) 0 = ?cs"
    by simp
  from asc same sorted notrev isrev kept show ?thesis
    by (intro conjI)
qed

end
